theory Spec2Isabelle
  imports Main "HOL-Library.Sublist" "HOL-Library.AList"
begin

section \<open>Python text operations used by \<open>rclone_automation.py\<close>\<close>

text \<open>
  Text is a list of \<^typ>\<open>char\<close>: the code points below 256. The errors the modelled
  code can raise are values of \<open>py_error\<close>; a computation that may raise returns
  \<open>py_error + 'a\<close>, with \<open>Inl\<close> for the exception. \<open>ExecutorError\<close> stands for
  whatever the shell executor raises.
\<close>

datatype py_error =
    IndexError
  | ValueError
  | KeyError string
  | FileNotFoundError
  | ExecutorError

text \<open>\<open>str.isspace\<close> below code point 256, the characters \<open>strip()\<close> removes and
  the regular expression class \<open>\s\<close> matches.\<close>

definition whitespace :: "char list" where
  "whitespace = [CHR 0x09, CHR 0x0A, CHR 0x0B, CHR 0x0C, CHR 0x0D,
                 CHR 0x1C, CHR 0x1D, CHR 0x1E, CHR 0x1F, CHR 0x20, CHR 0x85, CHR 0xA0]"

definition is_space :: "char \<Rightarrow> bool" where
  "is_space c \<longleftrightarrow> c \<in> set whitespace"

definition is_digit :: "char \<Rightarrow> bool" where
  "is_digit c \<longleftrightarrow> c \<in> set ''0123456789''"

text \<open>\<open>s.strip()\<close>.\<close>

definition str_strip :: "string \<Rightarrow> string" where
  "str_strip s = rev (dropWhile is_space (rev (dropWhile is_space s)))"

text \<open>\<open>s.find(sub)\<close>: the lowest index where \<open>sub\<close> occurs, or \<open>-1\<close>.\<close>

fun find_index :: "string \<Rightarrow> string \<Rightarrow> nat option" where
  "find_index [] sub = (if sub = [] then Some 0 else None)"
| "find_index (c # cs) sub =
     (if prefix sub (c # cs) then Some 0 else map_option Suc (find_index cs sub))"

definition str_find :: "string \<Rightarrow> string \<Rightarrow> int" where
  "str_find s sub = (case find_index s sub of None \<Rightarrow> - 1 | Some i \<Rightarrow> int i)"

text \<open>\<open>s.split(sep)\<close> for a non-empty separator (Python raises ValueError on the empty
  one; the code only passes the literals \<open>":"\<close>, \<open>"DEBUG"\<close> and \<open>"INFO"\<close>).\<close>

function str_split :: "string \<Rightarrow> string \<Rightarrow> string list" where
  "str_split s sep =
     (if sep = [] then [s]
      else case find_index s sep of
             None \<Rightarrow> [s]
           | Some i \<Rightarrow> take i s # str_split (drop (i + length sep) s) sep)"
  by pat_completeness auto
termination
proof (relation "measure (\<lambda>(s, sep). length s)")
  show "wf (measure (\<lambda>(s, sep). length s))" by simp
next
  fix s sep :: string and i :: nat
  assume sep: "sep \<noteq> []" and found: "find_index s sep = Some i"
  have "s \<noteq> []" using sep found by (cases s) auto
  moreover have "0 < i + length sep" using sep by simp
  ultimately have "length (drop (i + length sep) s) < length s" by simp
  then show "((drop (i + length sep) s, sep), (s, sep)) \<in> measure (\<lambda>(s, sep). length s)"
    by simp
qed

declare str_split.simps [simp del]

text \<open>\<open>xs[i]\<close> on a list, for \<open>i \<ge> 0\<close>: IndexError out of range.\<close>

definition py_index :: "'a list \<Rightarrow> nat \<Rightarrow> py_error + 'a" where
  "py_index xs i = (if i < length xs then Inr (xs ! i) else Inl IndexError)"

text \<open>Iterating over a file opened in text mode with the default \<open>newline=None\<close>:
  \<open>"\r\n"\<close> and a lone \<open>"\r"\<close> are read as \<open>"\n"\<close>, and every line keeps its
  \<open>"\n"\<close>; a last line without one is yielded as it is.\<close>

fun universal_newlines :: "string \<Rightarrow> string" where
  "universal_newlines [] = []"
| "universal_newlines [c] = [if c = CHR 0x0D then CHR 0x0A else c]"
| "universal_newlines (c # d # r) =
     (if c = CHR 0x0D
      then (if d = CHR 0x0A then CHR 0x0A # universal_newlines r
            else CHR 0x0A # universal_newlines (d # r))
      else c # universal_newlines (d # r))"

fun lines_from :: "string \<Rightarrow> string \<Rightarrow> string list" where
  "lines_from cur [] = (if cur = [] then [] else [cur])"
| "lines_from cur (c # cs) =
     (if c = CHR 0x0A then (cur @ [c]) # lines_from [] cs else lines_from (cur @ [c]) cs)"

definition file_lines :: "string \<Rightarrow> string list" where
  "file_lines text = lines_from [] (universal_newlines text)"

section \<open>\<open>datetime.strptime(s, "%Y/%m/%d %H:%M:%S")\<close>\<close>

text \<open>
  The standard library compiles the format into a regular expression, matches it at the
  start of the string with a backtracking matcher, raises ValueError when it does not match
  or when text remains after the match, and builds the \<open>datetime\<close>, whose constructor
  raises ValueError on a field out of range. A matcher here returns every way to match at
  the start of its input, in the order the backtracking matcher tries them: the matched
  groups and the rest of the input.
\<close>

record datetime =
  year :: nat
  month :: nat
  day :: nat
  hour :: nat
  minute :: nat
  second :: nat

type_synonym matcher = "string \<Rightarrow> (string \<times> string) list"

text \<open>One character of a class.\<close>

definition cls :: "string \<Rightarrow> matcher" where
  "cls chars s = (case s of [] \<Rightarrow> [] | c # r \<Rightarrow> if c \<in> set chars then [([c], r)] else [])"

definition sq :: "matcher \<Rightarrow> matcher \<Rightarrow> matcher" where
  "sq a b s = concat (map (\<lambda>(m1, r1). map (\<lambda>(m2, r2). (m1 @ m2, r2)) (b r1)) (a s))"

definition alt :: "matcher \<Rightarrow> matcher \<Rightarrow> matcher" where
  "alt a b s = a s @ b s"

text \<open>\<open>\s+\<close>, greedy: the longest run first.\<close>

definition ws_plus :: matcher where
  "ws_plus s = map (\<lambda>k. (take k s, drop k s)) (rev [1 ..< Suc (length (takeWhile is_space s))])"

definition digit :: matcher where
  "digit = cls ''0123456789''"

text \<open>The directives, as \<open>_strptime.TimeRE\<close> defines them:
  \<open>%Y = \d\d\d\d\<close>, \<open>%m = 1[0-2]|0[1-9]|[1-9]\<close>,
  \<open>%d = 3[0-1]|[1-2]\d|0[1-9]|[1-9]| [1-9]\<close>, \<open>%H = 2[0-3]|[0-1]\d|\d\<close>,
  \<open>%M = [0-5]\d|\d\<close>, \<open>%S = 6[0-1]|[0-5]\d|\d\<close>.\<close>

definition re_Y :: matcher where
  "re_Y = sq digit (sq digit (sq digit digit))"

definition re_m :: matcher where
  "re_m = alt (sq (cls ''1'') (cls ''012''))
         (alt (sq (cls ''0'') (cls ''123456789'')) (cls ''123456789''))"

definition re_d :: matcher where
  "re_d = alt (sq (cls ''3'') (cls ''01''))
         (alt (sq (cls ''12'') digit)
         (alt (sq (cls ''0'') (cls ''123456789''))
         (alt (cls ''123456789'') (sq (cls '' '') (cls ''123456789'')))))"

definition re_H :: matcher where
  "re_H = alt (sq (cls ''2'') (cls ''0123'')) (alt (sq (cls ''01'') digit) digit)"

definition re_M :: matcher where
  "re_M = alt (sq (cls ''012345'') digit) digit"

definition re_S :: matcher where
  "re_S = alt (sq (cls ''6'') (cls ''01'')) (alt (sq (cls ''012345'') digit) digit)"

type_synonym group_matcher = "string \<Rightarrow> (string list \<times> string) list"

definition group :: "matcher \<Rightarrow> group_matcher" where
  "group a s = map (\<lambda>(m, r). ([m], r)) (a s)"

definition nogroup :: "matcher \<Rightarrow> group_matcher" where
  "nogroup a s = map (\<lambda>(m, r). ([], r)) (a s)"

definition then_match :: "group_matcher \<Rightarrow> group_matcher \<Rightarrow> group_matcher" where
  "then_match a b s =
     concat (map (\<lambda>(g1, r1). map (\<lambda>(g2, r2). (g1 @ g2, r2)) (b r1)) (a s))"

text \<open>The format \<open>%Y/%m/%d %H:%M:%S\<close>; the blank of the format becomes \<open>\s+\<close>.\<close>

definition format_regex :: group_matcher where
  "format_regex =
     then_match (group re_Y) (then_match (nogroup (cls ''/''))
    (then_match (group re_m) (then_match (nogroup (cls ''/''))
    (then_match (group re_d) (then_match (nogroup ws_plus)
    (then_match (group re_H) (then_match (nogroup (cls '':''))
    (then_match (group re_M) (then_match (nogroup (cls '':''))
    (group re_S))))))))))"

text \<open>\<open>int(s)\<close> on a matched group: digits, after a blank for a day written \<open>" 5"\<close>.\<close>

definition digit_value :: "char \<Rightarrow> nat" where
  "digit_value c = length (takeWhile (\<lambda>d. d \<noteq> c) ''0123456789'')"

definition py_int :: "string \<Rightarrow> nat" where
  "py_int s = foldl (\<lambda>a c. 10 * a + digit_value c) 0 (str_strip s)"

definition is_leap :: "nat \<Rightarrow> bool" where
  "is_leap y \<longleftrightarrow> y mod 4 = 0 \<and> (y mod 100 \<noteq> 0 \<or> y mod 400 = 0)"

definition days_in_month :: "nat \<Rightarrow> nat \<Rightarrow> nat" where
  "days_in_month y m =
     (if m = 2 then (if is_leap y then 29 else 28)
      else if m \<in> {4, 6, 9, 11} then 30 else 31)"

text \<open>The constructor \<open>datetime(year, month, day, hour, minute, second)\<close>.\<close>

definition mk_datetime :: "nat \<Rightarrow> nat \<Rightarrow> nat \<Rightarrow> nat \<Rightarrow> nat \<Rightarrow> nat \<Rightarrow> py_error + datetime" where
  "mk_datetime y mo d h mi s =
     (if 1 \<le> y \<and> y \<le> 9999 \<and> 1 \<le> mo \<and> mo \<le> 12 \<and> 1 \<le> d \<and> d \<le> days_in_month y mo
         \<and> h \<le> 23 \<and> mi \<le> 59 \<and> s \<le> 59
      then Inr \<lparr>year = y, month = mo, day = d, hour = h, minute = mi, second = s\<rparr>
      else Inl ValueError)"

definition strptime :: "string \<Rightarrow> py_error + datetime" where
  "strptime s =
     (case format_regex s of
        [] \<Rightarrow> Inl ValueError
      | (groups, rest) # _ \<Rightarrow>
          if rest \<noteq> [] then Inl ValueError
          else (case groups of
                  [Y, mo, d, H, M, S] \<Rightarrow>
                    mk_datetime (py_int Y) (py_int mo) (py_int d) (py_int H) (py_int M) (py_int S)
                | _ \<Rightarrow> Inl ValueError))"

section \<open>\<open>RcloneAutomation.parse_log\<close>\<close>

text \<open>
  Modelled from the spec: \<open>TransferDTO\<close> (\<open>evalit/structures.py\<close> is not among the
  sources). The Transfer Record of the spec: the file identity, the name of the backend, and
  the optional start and end timestamps, unset until a log line sets them. The source
  constructs it as \<open>TransferDTO(fname=fname, transferer="rclone")\<close> and assigns
  \<open>start_time\<close> and \<open>end_time\<close>.
\<close>

record TransferDTO =
  fname :: string
  transferer :: string
  start_time :: "datetime option"
  end_time :: "datetime option"

definition new_dto :: "string \<Rightarrow> TransferDTO" where
  "new_dto f = \<lparr>fname = f, transferer = ''rclone'', start_time = None, end_time = None\<rparr>"

text \<open>\<open>timekeeper\<close> is a dict: an association list in insertion order, where storing
  under a key that is present keeps the key's place. \<open>timekeeper.get(fname, default)\<close>:\<close>

type_synonym timekeeper = "(string \<times> TransferDTO) list"

definition dict_get :: "timekeeper \<Rightarrow> string \<Rightarrow> TransferDTO \<Rightarrow> TransferDTO" where
  "dict_get tk k dflt = (case map_of tk k of None \<Rightarrow> dflt | Some v \<Rightarrow> v)"

text \<open>The two tests of the loop body, and the three expressions it evaluates on a line:
  \<open>line.split(":")[3].strip()\<close>, \<open>strptime(line.split("DEBUG")[0].strip(), ...)\<close> and
  \<open>strptime(line.split("INFO")[0].strip(), ...)\<close>.\<close>

definition is_start :: "string \<Rightarrow> bool" where
  "is_start line \<longleftrightarrow>
     str_find line ''multipart upload starting chunk 1 size'' \<noteq> - 1
     \<or> str_find line ''Transferring unconditionally'' \<noteq> - 1"

definition is_copied :: "string \<Rightarrow> bool" where
  "is_copied line \<longleftrightarrow> str_find line ''Copied'' \<noteq> - 1"

definition line_fname :: "string \<Rightarrow> py_error + string" where
  "line_fname line =
     (case py_index (str_split line '':'') 3 of Inl e \<Rightarrow> Inl e | Inr f \<Rightarrow> Inr (str_strip f))"

definition line_start_time :: "string \<Rightarrow> py_error + datetime" where
  "line_start_time line =
     (case py_index (str_split line ''DEBUG'') 0 of
        Inl e \<Rightarrow> Inl e | Inr tok \<Rightarrow> strptime (str_strip tok))"

definition line_end_time :: "string \<Rightarrow> py_error + datetime" where
  "line_end_time line =
     (case py_index (str_split line ''INFO'') 0 of
        Inl e \<Rightarrow> Inl e | Inr tok \<Rightarrow> strptime (str_strip tok))"

text \<open>The first \<open>if\<close> of the loop body.\<close>

definition start_block :: "timekeeper \<Rightarrow> string \<Rightarrow> py_error + timekeeper" where
  "start_block tk line =
     (if is_start line then
        (case line_fname line of
           Inl e \<Rightarrow> Inl e
         | Inr f \<Rightarrow>
             let dto = dict_get tk f (new_dto f) in
             (case line_start_time line of
                Inl e \<Rightarrow> Inl e
              | Inr t \<Rightarrow> Inr (AList.update f (dto\<lparr>start_time := Some t\<rparr>) tk)))
      else Inr tk)"

text \<open>The second \<open>if\<close> of the loop body.\<close>

definition copied_block :: "timekeeper \<Rightarrow> string \<Rightarrow> py_error + timekeeper" where
  "copied_block tk line =
     (if is_copied line then
        (case line_fname line of
           Inl e \<Rightarrow> Inl e
         | Inr f \<Rightarrow>
             let dto = dict_get tk f (new_dto f) in
             (case line_end_time line of
                Inl e \<Rightarrow> Inl e
              | Inr t \<Rightarrow> Inr (AList.update f (dto\<lparr>end_time := Some t\<rparr>) tk)))
      else Inr tk)"

text \<open>One iteration of \<open>for line in log\<close>: both tests, one after the other.\<close>

definition parse_line :: "timekeeper \<Rightarrow> string \<Rightarrow> py_error + timekeeper" where
  "parse_line tk line =
     (case start_block tk line of Inl e \<Rightarrow> Inl e | Inr tk1 \<Rightarrow> copied_block tk1 line)"

fun parse_lines :: "timekeeper \<Rightarrow> string list \<Rightarrow> py_error + timekeeper" where
  "parse_lines tk [] = Inr tk"
| "parse_lines tk (line # rest) =
     (case parse_line tk line of Inl e \<Rightarrow> Inl e | Inr tk1 \<Rightarrow> parse_lines tk1 rest)"

text \<open>\<open>parse_log\<close> on the text of the log file: the loop from the empty dict, then
  \<open>tuple(timekeeper.values())\<close>.\<close>

definition parse_log :: "string \<Rightarrow> py_error + TransferDTO list" where
  "parse_log text =
     (case parse_lines [] (file_lines text) of
        Inl e \<Rightarrow> Inl e
      | Inr tk \<Rightarrow> Inr (map snd tk))"

section \<open>\<open>RcloneAutomation.run_automation\<close>\<close>

text \<open>
  The part of the world \<open>run_automation\<close> acts on: the files on disk, by path, with their
  text, and the command lines handed to the shell executor so far. The second is a ghost
  field: the call site records the command before it calls the executor.
\<close>

record world =
  fs :: "string \<rightharpoonup> string"
  spawned :: "string list list"

text \<open>
  \<open>self\<close>. \<open>config\<close> is the dict the base class keeps; \<open>shell_executor\<close>
  (\<open>evalit/misc/shell.py\<close> is not among the sources) is a parameter: any function that,
  given the command line, changes the world and either returns the exit status of the
  process or raises.
\<close>

record automation =
  config :: "string \<rightharpoonup> string"
  files :: "string list"
  debug :: bool
  shell_executor :: "string list \<Rightarrow> world \<Rightarrow> (py_error + int) \<times> world"
  buffer_size :: int
  multi_thread_streams :: int
  multi_thread_cutoff :: int
  ntransfers :: int
  s3_max_upload_parts :: int
  s3_upload_concurrency :: int

text \<open>\<open>self.config[k]\<close>: KeyError on a missing key.\<close>

definition config_get :: "automation \<Rightarrow> string \<Rightarrow> py_error + string" where
  "config_get self k = (case config self k of None \<Rightarrow> Inl (KeyError k) | Some v \<Rightarrow> Inr v)"

text \<open>\<open>str(n)\<close> of an integer, as an f-string renders it.\<close>

fun str_nat :: "nat \<Rightarrow> string" where
  "str_nat n =
     (if n < 10 then [''0123456789'' ! n]
      else str_nat (n div 10) @ [''0123456789'' ! (n mod 10)])"

definition str_int :: "int \<Rightarrow> string" where
  "str_int i = (if i < 0 then ''-'' @ str_nat (nat (- i)) else str_nat (nat i))"

text \<open>
  \<open>tempfile.NamedTemporaryFile\<close> creates a file under a name of its choice; the name is a
  parameter here. With the default \<open>delete=True\<close>, \<open>close()\<close> unlinks that name, and
  raises FileNotFoundError when it is gone already. Only the statements of the source are
  modelled: what the garbage collector does to a temporary file object that is never
  closed is not.
\<close>

definition tmp_create :: "string \<Rightarrow> string \<Rightarrow> world \<Rightarrow> world" where
  "tmp_create name content w = w\<lparr>fs := (fs w)(name \<mapsto> content)\<rparr>"

definition tmp_close :: "string \<Rightarrow> world \<Rightarrow> (py_error + unit) \<times> world" where
  "tmp_close name w =
     (if fs w name = None then (Inl FileNotFoundError, w)
      else (Inr (), w\<lparr>fs := (fs w)(name := None)\<rparr>))"

definition generate_rclone_cfg :: "automation \<Rightarrow> string \<Rightarrow> world \<Rightarrow> (py_error + string) \<times> world" where
  "generate_rclone_cfg self cfg_name w =
     (case config_get self ''source_token'' of Inl e \<Rightarrow> (Inl e, w) | Inr source_token \<Rightarrow>
     (case config_get self ''source_secret'' of Inl e \<Rightarrow> (Inl e, w) | Inr source_secret \<Rightarrow>
     (case config_get self ''source_s3_endpoint'' of Inl e \<Rightarrow> (Inl e, w) | Inr source_s3_endpoint \<Rightarrow>
     (case config_get self ''dest_token'' of Inl e \<Rightarrow> (Inl e, w) | Inr dest_token \<Rightarrow>
     (case config_get self ''dest_secret'' of Inl e \<Rightarrow> (Inl e, w) | Inr dest_secret \<Rightarrow>
     (case config_get self ''dest_s3_endpoint'' of Inl e \<Rightarrow> (Inl e, w) | Inr dest_s3_endpoint \<Rightarrow>
        let nl = [CHR 0x0A];
            lines =
              [''[s3source]'' @ nl,
               ''type = s3'' @ nl,
               ''provider = Other'' @ nl,
               ''access_key_id = '' @ source_token @ nl,
               ''secret_access_key = '' @ source_secret @ nl,
               ''endpoint = '' @ source_s3_endpoint @ nl,
               ''acl = authenticated-read'' @ nl,
               nl,
               ''[s3dest]'' @ nl,
               ''type = s3'' @ nl,
               ''provider = Other'' @ nl,
               ''access_key_id = '' @ dest_token @ nl,
               ''secret_access_key = '' @ dest_secret @ nl,
               ''endpoint = '' @ dest_s3_endpoint @ nl,
               ''acl = authenticated-read'' @ nl @ nl]
        in (Inr cfg_name, tmp_create cfg_name (concat lines) w)))))))"

text \<open>The text \<open>parse_log\<close> reads from the log file object after \<open>seek(0)\<close>: what is
  on disk under the log's name (the executor is taken to write the log in place).\<close>

definition read_log :: "string \<Rightarrow> world \<Rightarrow> string" where
  "read_log name w = (case fs w name of None \<Rightarrow> [] | Some text \<Rightarrow> text)"

definition run_automation ::
  "automation \<Rightarrow> string \<Rightarrow> string \<Rightarrow> world \<Rightarrow> (py_error + TransferDTO list) \<times> world" where
  "run_automation self log_name cfg_name w =
     (case config_get self ''source_s3_bucket'' of Inl e \<Rightarrow> (Inl e, w) | Inr source_s3_bucket \<Rightarrow>
     (case config_get self ''source_s3_region'' of Inl e \<Rightarrow> (Inl e, w) | Inr source_s3_region \<Rightarrow>
     (case config_get self ''dest_s3_bucket'' of Inl e \<Rightarrow> (Inl e, w) | Inr dest_s3_bucket \<Rightarrow>
     (case config_get self ''dest_s3_region'' of Inl e \<Rightarrow> (Inl e, w) | Inr dest_s3_region \<Rightarrow>
        let total_files = length (files self);
            w1 = tmp_create log_name [] w
        in (case generate_rclone_cfg self cfg_name w1 of
              (Inl e, w2) \<Rightarrow> (Inl e, w2)
            | (Inr rclone_config_file, w2) \<Rightarrow>
                let cmd =
                      [''rclone'',
                       ''copy'',
                       ''s3source:'' @ source_s3_bucket,
                       ''s3dest:'' @ dest_s3_bucket,
                       ''--multi-thread-streams='' @ str_int (multi_thread_streams self),
                       ''--multi-thread-cutoff='' @ str_int (multi_thread_cutoff self) @ ''M'',
                       ''--s3-max-upload-parts='' @ str_int (s3_max_upload_parts self),
                       ''--s3-upload-concurrency='' @ str_int (s3_upload_concurrency self),
                       ''--buffer-size='' @ str_int (buffer_size self) @ ''M'',
                       ''--transfers='' @ str_int (ntransfers self),
                       ''--progress'',
                       ''--config='' @ rclone_config_file,
                       ''--log-file='' @ log_name,
                       ''--log-level=DEBUG'',
                       ''-I''];
                    w3 = w2\<lparr>spawned := spawned w2 @ [cmd]\<rparr>
                in (case shell_executor self cmd w3 of
                      (Inl e, w4) \<Rightarrow> (Inl e, w4)
                    | (Inr exdto, w4) \<Rightarrow>
                        (case tmp_close rclone_config_file w4 of
                           (Inl e, w5) \<Rightarrow> (Inl e, w5)
                         | (Inr u, w5) \<Rightarrow> (parse_log (read_log log_name w5), w5))))))))"

text \<open>The keys \<open>run_automation\<close> reads from the configuration, in the order it reads
  them.\<close>

definition required_keys :: "string list" where
  "required_keys =
     [''source_s3_bucket'', ''source_s3_region'', ''dest_s3_bucket'', ''dest_s3_region'',
      ''source_token'', ''source_secret'', ''source_s3_endpoint'',
      ''dest_token'', ''dest_secret'', ''dest_s3_endpoint'']"

section \<open>Notions used to state the properties\<close>

text \<open>A line on which the loop body raises: it matches a marker, and the identity field or
  the timestamp the matching block reads is not there.\<close>

definition line_raises :: "string \<Rightarrow> bool" where
  "line_raises l \<longleftrightarrow>
     (is_start l \<and> (isl (line_fname l) \<or> isl (line_start_time l)))
     \<or> (is_copied l \<and> (isl (line_fname l) \<or> isl (line_end_time l)))"

text \<open>The characters a string accepted by \<open>strptime\<close> is made of.\<close>

definition ts_chars :: "char list" where
  "ts_chars = ''0123456789/:'' @ whitespace"

definition consumes_ts :: "(string \<Rightarrow> ('a \<times> string) list) \<Rightarrow> bool" where
  "consumes_ts m \<longleftrightarrow>
     (\<forall>s g r. (g, r) \<in> set (m s) \<longrightarrow> (\<exists>x. s = x @ r \<and> set x \<subseteq> set ts_chars))"

text \<open>The invariant of the loop of \<open>parse_log\<close> on \<open>timekeeper\<close>.\<close>

definition tk_inv :: "timekeeper \<Rightarrow> bool" where
  "tk_inv tk \<longleftrightarrow>
     distinct (map fst tk)
     \<and> (\<forall>(k, d) \<in> set tk. fname d = k \<and> transferer d = ''rclone''
                             \<and> (start_time d \<noteq> None \<or> end_time d \<noteq> None))"

section \<open>Example logs and runs\<close>

text \<open>The two lines of the example scenario of the specification.\<close>

definition spec_example_log :: string where
  "spec_example_log =
     ''2024/01/01 10:00:00 DEBUG: msg: id: foo: Transferring unconditionally'' @ [CHR 0x0A]
     @ ''2024/01/01 10:05:00 INFO: msg: id: foo: Copied'' @ [CHR 0x0A]"

definition dt :: "nat \<Rightarrow> nat \<Rightarrow> nat \<Rightarrow> nat \<Rightarrow> nat \<Rightarrow> nat \<Rightarrow> datetime" where
  "dt y mo d h mi s = \<lparr>year = y, month = mo, day = d, hour = h, minute = mi, second = s\<rparr>"

text \<open>Lines in the shape rclone writes them at \<open>--log-level=DEBUG\<close>.\<close>

definition line_start_foo :: string where
  "line_start_foo =
     ''2024/01/01 10:00:00 DEBUG : foo: Transferring unconditionally as --ignore-times is in use''
     @ [CHR 0x0A]"

definition line_restart_foo :: string where
  "line_restart_foo =
     ''2024/01/01 10:01:00 DEBUG : foo: multipart upload starting chunk 1 size 5Mi offset 0/8Mi''
     @ [CHR 0x0A]"

definition line_copied_foo :: string where
  "line_copied_foo = ''2024/01/01 10:05:00 INFO  : foo: Copied (new)'' @ [CHR 0x0A]"

definition line_start_bar :: string where
  "line_start_bar =
     ''2024/01/01 10:02:00 DEBUG : bar: Transferring unconditionally as --ignore-times is in use''
     @ [CHR 0x0A]"

definition line_no_marker :: string where
  "line_no_marker = ''2024/01/01 10:00:00 DEBUG : rclone: Version 1.65 starting'' @ [CHR 0x0A]"

text \<open>A start line whose date is written with dashes.\<close>

definition line_dashed_bar :: string where
  "line_dashed_bar =
     ''2024-01-01 10:02:00 DEBUG : bar: Transferring unconditionally as --ignore-times is in use''
     @ [CHR 0x0A]"

text \<open>The start line of a file called \<open>Copied.txt\<close>: it holds both markers.\<close>

definition line_start_copied_txt :: string where
  "line_start_copied_txt =
     ''2024/01/01 10:00:01 DEBUG : Copied.txt: Transferring unconditionally as --ignore-times is in use''
     @ [CHR 0x0A]"

text \<open>A configuration with every key, the parameters of \<open>tests/controller_test2.py\<close>,
  and two executors: one that raises, one that writes a log and returns a status.\<close>

definition full_config :: "string \<rightharpoonup> string" where
  "full_config =
     map_of [(''source_token'', ''AKIA1''), (''source_secret'', ''s3cr3t1''),
             (''source_s3_endpoint'', ''https://a.example''),
             (''dest_token'', ''AKIA2''), (''dest_secret'', ''s3cr3t2''),
             (''dest_s3_endpoint'', ''https://b.example''),
             (''source_s3_bucket'', ''src''), (''source_s3_region'', ''us-east-1''),
             (''dest_s3_bucket'', ''dst''), (''dest_s3_region'', ''us-east-2'')]"

definition test_automation ::
  "(string \<rightharpoonup> string) \<Rightarrow> (string list \<Rightarrow> world \<Rightarrow> (py_error + int) \<times> world) \<Rightarrow> automation" where
  "test_automation cfg exec =
     \<lparr>config = cfg, files = [''testfile''], debug = True, shell_executor = exec,
      buffer_size = 512, multi_thread_streams = 10, multi_thread_cutoff = 50,
      ntransfers = 8, s3_max_upload_parts = 10, s3_upload_concurrency = 10\<rparr>"

definition executor_raises :: "string list \<Rightarrow> world \<Rightarrow> (py_error + int) \<times> world" where
  "executor_raises cmd w = (Inl ExecutorError, w)"

definition executor_writes ::
  "string \<Rightarrow> string \<Rightarrow> int \<Rightarrow> string list \<Rightarrow> world \<Rightarrow> (py_error + int) \<times> world" where
  "executor_writes name text status cmd w = (Inr status, w\<lparr>fs := (fs w)(name \<mapsto> text)\<rparr>)"

definition empty_world :: world where
  "empty_world = \<lparr>fs = Map.empty, spawned = []\<rparr>"

definition tmp_log :: string where
  "tmp_log = ''/tmp/rclone_k3v9.log''"

definition tmp_cfg :: string where
  "tmp_cfg = ''/tmp/rclone_x7q2.conf''"

section \<open>Text operations\<close>

lemma find_index_prefix:
  "find_index s sub = Some i \<Longrightarrow> prefix sub (drop i s) \<and> i \<le> length s"
proof (induction s arbitrary: i)
  case Nil
  then show ?case by (simp split: if_splits)
next
  case (Cons c cs)
  show ?case
  proof (cases "prefix sub (c # cs)")
    case True
    with Cons.prems show ?thesis by simp
  next
    case False
    with Cons.prems obtain j where j: "find_index cs sub = Some j" "i = Suc j"
      by auto
    from Cons.IH [OF j(1)] j(2) show ?thesis by simp
  qed
qed

lemma find_index_subset:
  assumes "find_index s sub = Some i"
  shows "set sub \<subseteq> set s"
proof -
  from find_index_prefix [OF assms] have "prefix sub (drop i s)" by simp
  then have "set sub \<subseteq> set (drop i s)" by (rule set_mono_prefix)
  also have "\<dots> \<subseteq> set s" by (rule set_drop_subset)
  finally show ?thesis .
qed

lemma find_index_nth:
  assumes "find_index s sub = Some i" and "sub \<noteq> []"
  shows "i < length s \<and> s ! i = hd sub"
proof -
  from find_index_prefix [OF assms(1)] obtain zs where zs: "drop i s = sub @ zs"
    by (auto simp: prefix_def)
  with assms(2) have ne: "drop i s \<noteq> []" by simp
  then have lt: "i < length s" by simp
  have "s ! i = hd (drop i s)" using lt by (simp add: hd_drop_conv_nth)
  also have "\<dots> = hd sub" using zs assms(2) by simp
  finally show ?thesis using lt by simp
qed

lemma str_split_first:
  "sep \<noteq> [] \<Longrightarrow>
   py_index (str_split s sep) 0 = Inr (case find_index s sep of None \<Rightarrow> s | Some i \<Rightarrow> take i s)"
  by (subst str_split.simps) (simp add: py_index_def split: option.splits)

lemma set_dropWhile_space: "set s \<subseteq> set (dropWhile is_space s) \<union> set whitespace"
  by (induction s) (auto simp: is_space_def)

lemma set_str_strip: "set s \<subseteq> set (str_strip s) \<union> set whitespace"
proof -
  have "set s \<subseteq> set (dropWhile is_space s) \<union> set whitespace"
    by (rule set_dropWhile_space)
  moreover have "set (rev (dropWhile is_space s))
      \<subseteq> set (dropWhile is_space (rev (dropWhile is_space s))) \<union> set whitespace"
    by (rule set_dropWhile_space)
  ultimately show ?thesis unfolding str_strip_def by auto
qed

lemma consumes_cls:
  assumes "set chars \<subseteq> set ''0123456789/: ''"
  shows "consumes_ts (cls chars)"
proof -
  have "set ''0123456789/: '' \<subseteq> set ts_chars" by (simp add: ts_chars_def whitespace_def)
  with assms have "set chars \<subseteq> set ts_chars" by blast
  then show ?thesis
    unfolding consumes_ts_def cls_def by (auto split: list.splits if_splits)
qed

lemma consumes_digit: "consumes_ts digit"
  unfolding digit_def by (rule consumes_cls) simp

lemma consumes_sq:
  assumes a: "consumes_ts a" and b: "consumes_ts b"
  shows "consumes_ts (sq a b)"
  unfolding consumes_ts_def
proof (intro allI impI)
  fix s g r
  assume "(g, r) \<in> set (sq a b s)"
  then obtain m1 r1 m2 where 1: "(m1, r1) \<in> set (a s)" and 2: "(m2, r) \<in> set (b r1)"
    by (auto simp: sq_def)
  from a 1 obtain x1 where x1: "s = x1 @ r1" "set x1 \<subseteq> set ts_chars"
    unfolding consumes_ts_def by blast
  from b 2 obtain x2 where x2: "r1 = x2 @ r" "set x2 \<subseteq> set ts_chars"
    unfolding consumes_ts_def by blast
  from x1 x2 have "s = (x1 @ x2) @ r \<and> set (x1 @ x2) \<subseteq> set ts_chars" by simp
  then show "\<exists>x. s = x @ r \<and> set x \<subseteq> set ts_chars" by blast
qed

lemma consumes_alt:
  assumes a: "consumes_ts a" and b: "consumes_ts b"
  shows "consumes_ts (alt a b)"
  unfolding consumes_ts_def
proof (intro allI impI)
  fix s g r
  assume "(g, r) \<in> set (alt a b s)"
  then have "(g, r) \<in> set (a s) \<or> (g, r) \<in> set (b s)" by (simp add: alt_def)
  then show "\<exists>x. s = x @ r \<and> set x \<subseteq> set ts_chars"
    using a b unfolding consumes_ts_def by blast
qed

lemma consumes_ws_plus: "consumes_ts ws_plus"
  unfolding consumes_ts_def
proof (intro allI impI)
  fix s g r
  assume "(g, r) \<in> set (ws_plus s)"
  then have "(g, r) \<in> (\<lambda>k. (take k s, drop k s)) ` {1 ..< Suc (length (takeWhile is_space s))}"
    by (simp add: ws_plus_def del: upt_Suc)
  then obtain k where k: "k \<in> {1 ..< Suc (length (takeWhile is_space s))}"
    and g: "g = take k s" and r: "r = drop k s"
    by blast
  from k have le: "k \<le> length (takeWhile is_space s)" by simp
  have "take k (takeWhile is_space s @ dropWhile is_space s) = take k (takeWhile is_space s)"
    using le by (simp del: takeWhile_dropWhile_id)
  then have "take k s = take k (takeWhile is_space s)" by simp
  then have "set g \<subseteq> set (takeWhile is_space s)" using g by (simp add: set_take_subset)
  also have "\<dots> \<subseteq> set whitespace" by (auto dest: set_takeWhileD simp: is_space_def)
  finally have "set g \<subseteq> set ts_chars" by (auto simp: ts_chars_def)
  moreover have "s = g @ r" using g r by simp
  ultimately show "\<exists>x. s = x @ r \<and> set x \<subseteq> set ts_chars" by blast
qed

lemma consumes_group: "consumes_ts a \<Longrightarrow> consumes_ts (group a)"
  unfolding consumes_ts_def group_def by fastforce

lemma consumes_nogroup: "consumes_ts a \<Longrightarrow> consumes_ts (nogroup a)"
  unfolding consumes_ts_def nogroup_def by fastforce

lemma consumes_then_match:
  assumes a: "consumes_ts a" and b: "consumes_ts b"
  shows "consumes_ts (then_match a b)"
  unfolding consumes_ts_def
proof (intro allI impI)
  fix s g r
  assume "(g, r) \<in> set (then_match a b s)"
  then obtain g1 r1 g2 where 1: "(g1, r1) \<in> set (a s)" and 2: "(g2, r) \<in> set (b r1)"
    by (auto simp: then_match_def)
  from a 1 obtain x1 where x1: "s = x1 @ r1" "set x1 \<subseteq> set ts_chars"
    unfolding consumes_ts_def by blast
  from b 2 obtain x2 where x2: "r1 = x2 @ r" "set x2 \<subseteq> set ts_chars"
    unfolding consumes_ts_def by blast
  from x1 x2 have "s = (x1 @ x2) @ r \<and> set (x1 @ x2) \<subseteq> set ts_chars" by simp
  then show "\<exists>x. s = x @ r \<and> set x \<subseteq> set ts_chars" by blast
qed

lemma consumes_format_regex: "consumes_ts format_regex"
  unfolding format_regex_def re_Y_def re_m_def re_d_def re_H_def re_M_def re_S_def
  by (intro consumes_then_match consumes_group consumes_nogroup consumes_sq consumes_alt
        consumes_ws_plus consumes_digit consumes_cls) simp_all

lemma strptime_chars:
  assumes "strptime s = Inr t"
  shows "set s \<subseteq> set ts_chars"
proof -
  from assms obtain g rest tl where m: "format_regex s = (g, rest) # tl"
    by (cases "format_regex s") (auto simp: strptime_def)
  with assms have "rest = []" by (auto simp: strptime_def split: if_splits)
  with m have "(g, []) \<in> set (format_regex s)" by simp
  with consumes_format_regex show ?thesis unfolding consumes_ts_def by fastforce
qed

lemma strptime_error: "strptime s = Inl e \<Longrightarrow> e = ValueError"
  by (auto simp: strptime_def mk_datetime_def split: list.splits if_splits)


section \<open>One line of the log\<close>

lemma line_start_time_eq:
  "line_start_time l =
     strptime (str_strip (case find_index l ''DEBUG'' of None \<Rightarrow> l | Some i \<Rightarrow> take i l))"
  by (simp add: line_start_time_def str_split_first)

lemma line_end_time_eq:
  "line_end_time l =
     strptime (str_strip (case find_index l ''INFO'' of None \<Rightarrow> l | Some i \<Rightarrow> take i l))"
  by (simp add: line_end_time_def str_split_first)

lemma strptime_token_chars:
  assumes "strptime (str_strip tok) = Inr t"
  shows "set tok \<subseteq> set ts_chars"
proof -
  have "set tok \<subseteq> set (str_strip tok) \<union> set whitespace" by (rule set_str_strip)
  moreover have "set (str_strip tok) \<subseteq> set ts_chars" using assms by (rule strptime_chars)
  moreover have "set whitespace \<subseteq> set ts_chars" by (auto simp: ts_chars_def)
  ultimately show ?thesis by blast
qed

lemma token_before:
  assumes ok: "strptime (str_strip (case find_index l sep of None \<Rightarrow> l | Some i \<Rightarrow> take i l)) = Inr t"
      and c: "c \<in> set l" "c \<notin> set ts_chars"
      and sep: "sep \<noteq> []"
  shows "\<exists>i. find_index l sep = Some i \<and> i < length l \<and> l ! i = hd sep \<and> set (take i l) \<subseteq> set ts_chars"
proof (cases "find_index l sep")
  case None
  with ok have "set l \<subseteq> set ts_chars" by (auto dest: strptime_token_chars)
  with c show ?thesis by blast
next
  case (Some i)
  with ok have "set (take i l) \<subseteq> set ts_chars" by (auto dest: strptime_token_chars)
  with Some find_index_nth [OF Some sep] show ?thesis by simp
qed

lemma two_tokens:
  assumes c: "c \<in> set l" "c \<notin> set ts_chars"
  shows "isl (line_start_time l) \<or> isl (line_end_time l)"
proof (rule ccontr)
  assume "\<not> ?thesis"
  then obtain ts te where ts: "line_start_time l = Inr ts" and te: "line_end_time l = Inr te"
    by (cases "line_start_time l"; cases "line_end_time l") auto
  from token_before [OF ts [unfolded line_start_time_eq] c] obtain i
    where i: "i < length l" "l ! i = CHR ''D''" "set (take i l) \<subseteq> set ts_chars" by auto
  from token_before [OF te [unfolded line_end_time_eq] c] obtain j
    where j: "j < length l" "l ! j = CHR ''I''" "set (take j l) \<subseteq> set ts_chars" by auto
  have D: "CHR ''D'' \<notin> set ts_chars" and I: "CHR ''I'' \<notin> set ts_chars"
    by (simp_all add: ts_chars_def whitespace_def)
  consider "i < j" | "j < i" | "i = j" by linarith
  then show False
  proof cases
    case 1
    then have "l ! i \<in> set (take j l)" using j(1) by (auto simp: in_set_conv_nth intro!: exI [of _ i])
    with i(2) j(3) D show False by auto
  next
    case 2
    then have "l ! j \<in> set (take i l)" using i(1) by (auto simp: in_set_conv_nth intro!: exI [of _ j])
    with j(2) i(3) I show False by auto
  next
    case 3
    with i(2) j(2) show False by simp
  qed
qed

lemma str_find_set:
  assumes "str_find l sub \<noteq> - 1"
  shows "set sub \<subseteq> set l"
proof -
  from assms obtain i where "find_index l sub = Some i"
    by (cases "find_index l sub") (auto simp: str_find_def)
  then show ?thesis by (rule find_index_subset)
qed

lemma is_copied_char: "is_copied l \<Longrightarrow> CHR ''C'' \<in> set l"
  unfolding is_copied_def by (drule str_find_set) simp

lemma copied_line_one_token_fails:
  assumes "is_copied l"
  shows "isl (line_start_time l) \<or> isl (line_end_time l)"
proof -
  have "CHR ''C'' \<notin> set ts_chars" by (simp add: ts_chars_def whitespace_def)
  with is_copied_char [OF assms] show ?thesis by (rule two_tokens)
qed

lemma line_fname_error: "line_fname l = Inl e \<Longrightarrow> e = IndexError"
  by (auto simp: line_fname_def py_index_def split: if_splits)

lemma line_start_time_error: "line_start_time l = Inl e \<Longrightarrow> e = ValueError"
  unfolding line_start_time_eq by (rule strptime_error)

lemma line_end_time_error: "line_end_time l = Inl e \<Longrightarrow> e = ValueError"
  unfolding line_end_time_eq by (rule strptime_error)

lemma start_block_cases:
  "start_block tk l =
     (if \<not> is_start l then Inr tk
      else case line_fname l of
             Inl e \<Rightarrow> Inl IndexError
           | Inr f \<Rightarrow> (case line_start_time l of
                         Inl e \<Rightarrow> Inl ValueError
                       | Inr t \<Rightarrow> Inr (AList.update f ((dict_get tk f (new_dto f))\<lparr>start_time := Some t\<rparr>) tk)))"
  by (auto simp: start_block_def Let_def split: sum.splits
        dest: line_fname_error line_start_time_error)

lemma copied_block_cases:
  "copied_block tk l =
     (if \<not> is_copied l then Inr tk
      else case line_fname l of
             Inl e \<Rightarrow> Inl IndexError
           | Inr f \<Rightarrow> (case line_end_time l of
                         Inl e \<Rightarrow> Inl ValueError
                       | Inr t \<Rightarrow> Inr (AList.update f ((dict_get tk f (new_dto f))\<lparr>end_time := Some t\<rparr>) tk)))"
  by (auto simp: copied_block_def Let_def split: sum.splits
        dest: line_fname_error line_end_time_error)

lemma parse_line_raises:
  assumes "line_raises l"
  shows "parse_line tk l = Inl IndexError \<or> parse_line tk l = Inl ValueError"
  using assms
  by (auto simp: parse_line_def line_raises_def start_block_cases copied_block_cases
        split: sum.splits)

lemma parse_line_start:
  assumes "\<not> line_raises l" and "is_start l"
  shows "\<not> is_copied l \<and> (\<exists>f t. line_fname l = Inr f \<and> line_start_time l = Inr t
           \<and> parse_line tk l = Inr (AList.update f ((dict_get tk f (new_dto f))\<lparr>start_time := Some t\<rparr>) tk))"
proof -
  from assms obtain f t where ft: "line_fname l = Inr f" "line_start_time l = Inr t"
    by (cases "line_fname l"; cases "line_start_time l") (auto simp: line_raises_def)
  have nc: "\<not> is_copied l"
  proof
    assume c: "is_copied l"
    with assms(1) have "\<not> isl (line_end_time l)" by (simp add: line_raises_def)
    with copied_line_one_token_fails [OF c] ft show False by simp
  qed
  with ft assms(2) show ?thesis
    by (simp add: parse_line_def start_block_cases copied_block_cases)
qed

lemma parse_line_copied:
  assumes "\<not> line_raises l" and "is_copied l"
  shows "\<not> is_start l \<and> (\<exists>f t. line_fname l = Inr f \<and> line_end_time l = Inr t
           \<and> parse_line tk l = Inr (AList.update f ((dict_get tk f (new_dto f))\<lparr>end_time := Some t\<rparr>) tk))"
proof -
  from assms obtain f t where ft: "line_fname l = Inr f" "line_end_time l = Inr t"
    by (cases "line_fname l"; cases "line_end_time l") (auto simp: line_raises_def)
  have ns: "\<not> is_start l"
  proof
    assume s: "is_start l"
    with assms(1) have "\<not> isl (line_start_time l)" by (simp add: line_raises_def)
    with copied_line_one_token_fails [OF assms(2)] ft show False by simp
  qed
  with ft assms(2) show ?thesis
    by (simp add: parse_line_def start_block_cases copied_block_cases)
qed

lemma parse_line_skip:
  "\<not> is_start l \<Longrightarrow> \<not> is_copied l \<Longrightarrow> parse_line tk l = Inr tk"
  by (simp add: parse_line_def start_block_cases copied_block_cases)

lemma parse_line_returns:
  assumes "parse_line tk l = Inr tk'"
  shows "\<not> line_raises l"
  using assms parse_line_raises [of l tk] by auto

lemma parse_lines_append:
  "parse_lines tk (xs @ ys) =
     (case parse_lines tk xs of Inl e \<Rightarrow> Inl e | Inr tk1 \<Rightarrow> parse_lines tk1 ys)"
  by (induction xs arbitrary: tk) (auto split: sum.splits)

lemma parse_lines_returns:
  "parse_lines tk ls = Inr tk' \<Longrightarrow> l \<in> set ls \<Longrightarrow> \<not> line_raises l"
proof (induction ls arbitrary: tk)
  case Nil
  then show ?case by simp
next
  case (Cons a ls)
  from Cons.prems(1) obtain tk1 where 1: "parse_line tk a = Inr tk1"
    and 2: "parse_lines tk1 ls = Inr tk'"
    by (auto split: sum.splits)
  from Cons.prems(2) consider "l = a" | "l \<in> set ls" by auto
  then show ?case
  proof cases
    case 1
    with \<open>parse_line tk a = Inr tk1\<close> show ?thesis by (auto dest: parse_line_returns)
  next
    case 2
    with Cons.IH [OF \<open>parse_lines tk1 ls = Inr tk'\<close>] show ?thesis by simp
  qed
qed

lemma parse_lines_error:
  "parse_lines tk ls = Inl e \<Longrightarrow> e = IndexError \<or> e = ValueError"
proof (induction ls arbitrary: tk)
  case Nil
  then show ?case by simp
next
  case (Cons a ls)
  show ?case
  proof (cases "line_raises a")
    case True
    from parse_line_raises [OF True, of tk] Cons.prems show ?thesis by auto
  next
    case False
    then obtain tk1 where "parse_line tk a = Inr tk1"
      using parse_line_start [of a tk] parse_line_copied [of a tk] parse_line_skip [of a tk]
      by blast
    with Cons show ?thesis by auto
  qed
qed

lemma parse_line_total:
  assumes "\<not> line_raises l"
  shows "\<exists>tk'. parse_line tk l = Inr tk'"
  using assms parse_line_start [of l tk] parse_line_copied [of l tk] parse_line_skip [of l tk]
  by blast

lemma parse_lines_total:
  "\<forall>l \<in> set ls. \<not> line_raises l \<Longrightarrow> \<exists>tk'. parse_lines tk ls = Inr tk'"
proof (induction ls arbitrary: tk)
  case Nil
  then show ?case by simp
next
  case (Cons a ls)
  then obtain tk1 where "parse_line tk a = Inr tk1" using parse_line_total [of a tk] by auto
  with Cons show ?case by auto
qed


section \<open>The loop over the lines\<close>

lemma parse_line_cases [consumes 1, case_names skip start copied]:
  assumes "parse_line tk l = Inr tk1"
  obtains
    (skip) "\<not> is_start l" "\<not> is_copied l" "tk1 = tk"
  | (start) f t where "is_start l" "\<not> is_copied l" "line_fname l = Inr f"
      "line_start_time l = Inr t"
      "tk1 = AList.update f ((dict_get tk f (new_dto f))\<lparr>start_time := Some t\<rparr>) tk"
  | (copied) f t where "is_copied l" "\<not> is_start l" "line_fname l = Inr f"
      "line_end_time l = Inr t"
      "tk1 = AList.update f ((dict_get tk f (new_dto f))\<lparr>end_time := Some t\<rparr>) tk"
proof -
  have nr: "\<not> line_raises l" using assms by (rule parse_line_returns)
  consider "is_start l" | "is_copied l" | "\<not> is_start l" "\<not> is_copied l" by blast
  then show thesis
  proof cases
    case 1
    with parse_line_start [OF nr 1, of tk] assms start show ?thesis by auto
  next
    case 2
    with parse_line_copied [OF nr 2, of tk] assms copied show ?thesis by auto
  next
    case 3
    with parse_line_skip [OF 3, of tk] assms skip show ?thesis by auto
  qed
qed

lemma set_update_subset: "set (AList.update k v al) \<subseteq> insert (k, v) (set al)"
  by (induction al) auto

lemma dict_get_inv:
  assumes "tk_inv tk"
  shows "fname (dict_get tk f (new_dto f)) = f \<and> transferer (dict_get tk f (new_dto f)) = ''rclone''"
proof (cases "map_of tk f")
  case None
  then show ?thesis by (simp add: dict_get_def new_dto_def)
next
  case (Some d)
  then have "(f, d) \<in> set tk" by (rule map_of_SomeD)
  with assms Some show ?thesis by (auto simp: tk_inv_def dict_get_def)
qed

lemma tk_inv_update:
  assumes inv: "tk_inv tk" and d: "fname d = f" "transferer d = ''rclone''"
    "start_time d \<noteq> None \<or> end_time d \<noteq> None"
  shows "tk_inv (AList.update f d tk)"
proof -
  have "distinct (map fst (AList.update f d tk))"
    using inv by (simp add: tk_inv_def distinct_update)
  moreover have "\<forall>(k, v) \<in> set (AList.update f d tk).
      fname v = k \<and> transferer v = ''rclone'' \<and> (start_time v \<noteq> None \<or> end_time v \<noteq> None)"
    using set_update_subset [of f d tk] inv d by (auto simp: tk_inv_def)
  ultimately show ?thesis by (simp add: tk_inv_def)
qed

lemma tk_inv_parse_line:
  assumes "parse_line tk l = Inr tk1" and "tk_inv tk"
  shows "tk_inv tk1"
  using assms(1)
proof (cases rule: parse_line_cases)
  case skip
  with assms(2) show ?thesis by simp
next
  case (start f t)
  show ?thesis unfolding start(5)
    by (rule tk_inv_update [OF assms(2)]) (simp_all add: dict_get_inv [OF assms(2)])
next
  case (copied f t)
  show ?thesis unfolding copied(5)
    by (rule tk_inv_update [OF assms(2)]) (simp_all add: dict_get_inv [OF assms(2)])
qed

lemma tk_inv_parse_lines:
  "parse_lines tk ls = Inr tk' \<Longrightarrow> tk_inv tk \<Longrightarrow> tk_inv tk'"
proof (induction ls arbitrary: tk)
  case Nil
  then show ?case by simp
next
  case (Cons a ls)
  from Cons.prems(1) obtain tk1 where 1: "parse_line tk a = Inr tk1"
    and 2: "parse_lines tk1 ls = Inr tk'"
    by (auto split: sum.splits)
  from tk_inv_parse_line [OF 1 Cons.prems(2)] Cons.IH [OF 2] show ?case by simp
qed

lemma tk_inv_empty: "tk_inv []"
  by (simp add: tk_inv_def)

lemma records_of_identity:
  assumes "distinct (map fst tk)" and "\<forall>(k, d) \<in> set tk. fname d = k"
  shows "filter (\<lambda>r. fname r = X) (map snd tk) = (case map_of tk X of None \<Rightarrow> [] | Some d \<Rightarrow> [d])"
  using assms
proof (induction tk)
  case Nil
  then show ?case by simp
next
  case (Cons p tk)
  obtain k d where p: "p = (k, d)" by (cases p)
  from Cons.prems p have kd: "fname d = k" and notin: "k \<notin> fst ` set tk"
    and rest: "distinct (map fst tk)" "\<forall>(k, d) \<in> set tk. fname d = k"
    by auto
  show ?case
  proof (cases "k = X")
    case True
    have "filter (\<lambda>r. fname r = X) (map snd tk) = []"
    proof -
      have "\<forall>r \<in> set (map snd tk). fname r \<noteq> X"
      proof
        fix r assume "r \<in> set (map snd tk)"
        then obtain k' where in_tk: "(k', r) \<in> set tk" by auto
        with rest(2) have "fname r = k'" by auto
        moreover from in_tk have "k' \<in> fst ` set tk" by force
        ultimately show "fname r \<noteq> X" using notin True by auto
      qed
      then show ?thesis by (simp add: filter_empty_conv)
    qed
    with True kd p show ?thesis by simp
  next
    case False
    with Cons.IH [OF rest] kd p show ?thesis by simp
  qed
qed

lemma start_set_here:
  assumes "parse_line tk l = Inr tk1" and "is_start l" and "line_fname l = Inr X"
  shows "\<exists>d t. line_start_time l = Inr t \<and> map_of tk1 X = Some d \<and> start_time d = Some t"
  using assms(1)
proof (cases rule: parse_line_cases)
  case skip
  with assms(2) show ?thesis by simp
next
  case (start f t)
  with assms(3) show ?thesis by (simp add: update_conv')
next
  case (copied f t)
  with assms(2) show ?thesis by simp
qed

lemma end_set_here:
  assumes "parse_line tk l = Inr tk1" and "is_copied l" and "line_fname l = Inr X"
  shows "\<exists>d t. line_end_time l = Inr t \<and> map_of tk1 X = Some d \<and> end_time d = Some t"
  using assms(1)
proof (cases rule: parse_line_cases)
  case skip
  with assms(2) show ?thesis by simp
next
  case (start f t)
  with assms(2) show ?thesis by simp
next
  case (copied f t)
  with assms(3) show ?thesis by (simp add: update_conv')
qed

lemma start_kept_line:
  assumes "parse_line tk l = Inr tk1" and "\<not> (is_start l \<and> line_fname l = Inr X)"
    and "map_of tk X = Some d"
  shows "\<exists>d1. map_of tk1 X = Some d1 \<and> start_time d1 = start_time d"
  using assms(1)
proof (cases rule: parse_line_cases)
  case skip
  with assms(3) show ?thesis by simp
next
  case (start f t)
  with assms(2) have "f \<noteq> X" by auto
  with start(5) assms(3) show ?thesis by (simp add: update_conv')
next
  case (copied f t)
  with assms(3) show ?thesis by (cases "f = X") (simp_all add: update_conv' dict_get_def)
qed

lemma end_kept_line:
  assumes "parse_line tk l = Inr tk1" and "\<not> (is_copied l \<and> line_fname l = Inr X)"
    and "map_of tk X = Some d"
  shows "\<exists>d1. map_of tk1 X = Some d1 \<and> end_time d1 = end_time d"
  using assms(1)
proof (cases rule: parse_line_cases)
  case skip
  with assms(3) show ?thesis by simp
next
  case (start f t)
  with assms(3) show ?thesis by (cases "f = X") (simp_all add: update_conv' dict_get_def)
next
  case (copied f t)
  with assms(2) have "f \<noteq> X" by auto
  with copied(5) assms(3) show ?thesis by (simp add: update_conv')
qed

lemma start_kept:
  "parse_lines tk ls = Inr tk' \<Longrightarrow> \<forall>l \<in> set ls. \<not> (is_start l \<and> line_fname l = Inr X)
   \<Longrightarrow> map_of tk X = Some d \<Longrightarrow> \<exists>d'. map_of tk' X = Some d' \<and> start_time d' = start_time d"
proof (induction ls arbitrary: tk d)
  case Nil
  then show ?case by simp
next
  case (Cons a ls)
  from Cons.prems(1) obtain tk1 where 1: "parse_line tk a = Inr tk1"
    and 2: "parse_lines tk1 ls = Inr tk'"
    by (auto split: sum.splits)
  from start_kept_line [OF 1 _ Cons.prems(3)] Cons.prems(2)
  obtain d1 where d1: "map_of tk1 X = Some d1" "start_time d1 = start_time d" by auto
  from Cons.IH [OF 2 _ d1(1)] Cons.prems(2) d1(2) show ?case by auto
qed

lemma end_kept:
  "parse_lines tk ls = Inr tk' \<Longrightarrow> \<forall>l \<in> set ls. \<not> (is_copied l \<and> line_fname l = Inr X)
   \<Longrightarrow> map_of tk X = Some d \<Longrightarrow> \<exists>d'. map_of tk' X = Some d' \<and> end_time d' = end_time d"
proof (induction ls arbitrary: tk d)
  case Nil
  then show ?case by simp
next
  case (Cons a ls)
  from Cons.prems(1) obtain tk1 where 1: "parse_line tk a = Inr tk1"
    and 2: "parse_lines tk1 ls = Inr tk'"
    by (auto split: sum.splits)
  from end_kept_line [OF 1 _ Cons.prems(3)] Cons.prems(2)
  obtain d1 where d1: "map_of tk1 X = Some d1" "end_time d1 = end_time d" by auto
  from Cons.IH [OF 2 _ d1(1)] Cons.prems(2) d1(2) show ?case by auto
qed

lemma end_unset_line:
  assumes "parse_line tk l = Inr tk1" and "\<not> (is_copied l \<and> line_fname l = Inr X)"
    and "\<forall>d. map_of tk X = Some d \<longrightarrow> end_time d = None"
  shows "\<forall>d. map_of tk1 X = Some d \<longrightarrow> end_time d = None"
  using assms(1)
proof (cases rule: parse_line_cases)
  case skip
  with assms(3) show ?thesis by simp
next
  case (start f t)
  with assms(3) show ?thesis
    by (cases "f = X") (auto simp: update_conv' dict_get_def new_dto_def split: option.splits)
next
  case (copied f t)
  with assms(2) have "f \<noteq> X" by auto
  with copied(5) assms(3) show ?thesis by (simp add: update_conv')
qed

lemma end_unset:
  "parse_lines tk ls = Inr tk' \<Longrightarrow> \<forall>l \<in> set ls. \<not> (is_copied l \<and> line_fname l = Inr X)
   \<Longrightarrow> \<forall>d. map_of tk X = Some d \<longrightarrow> end_time d = None
   \<Longrightarrow> \<forall>d. map_of tk' X = Some d \<longrightarrow> end_time d = None"
proof (induction ls arbitrary: tk)
  case Nil
  then show ?case by simp
next
  case (Cons a ls)
  from Cons.prems(1) obtain tk1 where 1: "parse_line tk a = Inr tk1"
    and 2: "parse_lines tk1 ls = Inr tk'"
    by (auto split: sum.splits)
  from end_unset_line [OF 1 _ Cons.prems(3)] Cons.prems(2)
  have "\<forall>d. map_of tk1 X = Some d \<longrightarrow> end_time d = None" by auto
  from Cons.IH [OF 2 _ this] Cons.prems(2) show ?case by auto
qed

lemma start_of_last:
  assumes run: "parse_lines tk (pre @ l # post) = Inr tk'"
    and l: "is_start l" "line_fname l = Inr X"
    and post: "\<forall>l' \<in> set post. \<not> (is_start l' \<and> line_fname l' = Inr X)"
  shows "\<exists>d t. line_start_time l = Inr t \<and> map_of tk' X = Some d \<and> start_time d = Some t"
proof -
  from run obtain tk1 tk2 where 1: "parse_lines tk pre = Inr tk1"
    and 2: "parse_line tk1 l = Inr tk2" and 3: "parse_lines tk2 post = Inr tk'"
    by (auto simp: parse_lines_append split: sum.splits)
  from start_set_here [OF 2 l] obtain d t where dt: "line_start_time l = Inr t"
    "map_of tk2 X = Some d" "start_time d = Some t" by blast
  from start_kept [OF 3 post dt(2)] dt show ?thesis by auto
qed

lemma end_of_last:
  assumes run: "parse_lines tk (pre @ l # post) = Inr tk'"
    and l: "is_copied l" "line_fname l = Inr X"
    and post: "\<forall>l' \<in> set post. \<not> (is_copied l' \<and> line_fname l' = Inr X)"
  shows "\<exists>d t. line_end_time l = Inr t \<and> map_of tk' X = Some d \<and> end_time d = Some t"
proof -
  from run obtain tk1 tk2 where 1: "parse_lines tk pre = Inr tk1"
    and 2: "parse_line tk1 l = Inr tk2" and 3: "parse_lines tk2 post = Inr tk'"
    by (auto simp: parse_lines_append split: sum.splits)
  from end_set_here [OF 2 l] obtain d t where dt: "line_end_time l = Inr t"
    "map_of tk2 X = Some d" "end_time d = Some t" by blast
  from end_kept [OF 3 post dt(2)] dt show ?thesis by auto
qed

lemma keys_parse_line:
  assumes "parse_line tk l = Inr tk1"
  shows "k \<in> fst ` set tk1 \<longleftrightarrow>
         k \<in> fst ` set tk \<or> ((is_start l \<or> is_copied l) \<and> line_fname l = Inr k)"
  using assms
proof (cases rule: parse_line_cases)
  case skip
  then show ?thesis by simp
next
  case (start f t)
  then show ?thesis by (auto simp: dom_update)
next
  case (copied f t)
  then show ?thesis by (auto simp: dom_update)
qed

lemma key_created:
  "parse_lines tk ls = Inr tk' \<Longrightarrow> k \<in> fst ` set tk' \<Longrightarrow>
   k \<in> fst ` set tk \<or>
   (\<exists>pre l post. ls = pre @ l # post \<and> (is_start l \<or> is_copied l) \<and> line_fname l = Inr k
      \<and> (\<forall>l' \<in> set pre. \<not> ((is_start l' \<or> is_copied l') \<and> line_fname l' = Inr k)))"
proof (induction ls arbitrary: tk)
  case Nil
  then show ?case by simp
next
  case (Cons a ls)
  from Cons.prems(1) obtain tk1 where 1: "parse_line tk a = Inr tk1"
    and 2: "parse_lines tk1 ls = Inr tk'"
    by (auto split: sum.splits)
  show ?case
  proof (cases "(is_start a \<or> is_copied a) \<and> line_fname a = Inr k")
    case True
    then have "a # ls = [] @ a # ls \<and> (is_start a \<or> is_copied a) \<and> line_fname a = Inr k
      \<and> (\<forall>l' \<in> set []. \<not> ((is_start l' \<or> is_copied l') \<and> line_fname l' = Inr k))"
      by simp
    then show ?thesis by blast
  next
    case False
    from Cons.IH [OF 2 Cons.prems(2)] consider "k \<in> fst ` set tk1"
      | pre l post where "ls = pre @ l # post" "is_start l \<or> is_copied l" "line_fname l = Inr k"
          "\<forall>l' \<in> set pre. \<not> ((is_start l' \<or> is_copied l') \<and> line_fname l' = Inr k)"
      by blast
    then show ?thesis
    proof cases
      case 1
      with keys_parse_line [OF \<open>parse_line tk a = Inr tk1\<close>, of k] False show ?thesis by simp
    next
      case 2
      with False have "a # ls = (a # pre) @ l # post \<and> (is_start l \<or> is_copied l)
        \<and> line_fname l = Inr k
        \<and> (\<forall>l' \<in> set (a # pre). \<not> ((is_start l' \<or> is_copied l') \<and> line_fname l' = Inr k))"
        by simp
      then show ?thesis by blast
    qed
  qed
qed


section \<open>The whole log\<close>

lemma parse_log_returns:
  assumes "parse_log text = Inr recs"
  obtains tk where "parse_lines [] (file_lines text) = Inr tk" "recs = map snd tk" "tk_inv tk"
proof -
  from assms obtain tk where tk: "parse_lines [] (file_lines text) = Inr tk" "recs = map snd tk"
    by (auto simp: parse_log_def split: sum.splits)
  from tk_inv_parse_lines [OF tk(1) tk_inv_empty] tk show thesis by (rule that [rotated 2])
qed

lemma parse_log_raises:
  assumes "l \<in> set (file_lines text)" and "line_raises l"
  shows "parse_log text = Inl IndexError \<or> parse_log text = Inl ValueError"
proof (cases "parse_lines [] (file_lines text)")
  case (Inl e)
  with parse_lines_error [OF Inl] show ?thesis by (auto simp: parse_log_def)
next
  case (Inr tk)
  from parse_lines_returns [OF Inr assms(1)] assms(2) show ?thesis by simp
qed

lemma records_of_identity_inv:
  assumes "tk_inv tk"
  shows "filter (\<lambda>r. fname r = X) (map snd tk) = (case map_of tk X of None \<Rightarrow> [] | Some d \<Rightarrow> [d])"
  using assms by (intro records_of_identity) (auto simp: tk_inv_def)

lemma spec_example_log_result:
  "parse_log spec_example_log =
     Inr [\<lparr>fname = ''msg'', transferer = ''rclone'',
           start_time = Some (dt 2024 1 1 10 0 0), end_time = Some (dt 2024 1 1 10 5 0)\<rparr>]"
  by code_simp

lemma parse_log_total:
  assumes "\<forall>l \<in> set (file_lines text). \<not> line_raises l"
  obtains tk where "parse_lines [] (file_lines text) = Inr tk" "parse_log text = Inr (map snd tk)"
    "tk_inv tk"
proof -
  from parse_lines_total [OF assms] obtain tk where tk: "parse_lines [] (file_lines text) = Inr tk"
    by blast
  then have "parse_log text = Inr (map snd tk)" by (simp add: parse_log_def)
  with tk tk_inv_parse_lines [OF tk tk_inv_empty] that show thesis by blast
qed

section \<open>The paths through \<open>run_automation\<close>\<close>

lemma config_get_Inl: "config_get self k = Inl e \<Longrightarrow> e = KeyError k \<and> config self k = None"
  by (auto simp: config_get_def split: option.splits)

lemma config_get_Inr: "config_get self k = Inr v \<Longrightarrow> config self k = Some v"
  by (auto simp: config_get_def split: option.splits)

lemma generate_rclone_cfg_raises:
  assumes "generate_rclone_cfg self cfg_name w = (Inl e, w')"
  shows "w' = w \<and> (\<exists>k \<in> set required_keys. e = KeyError k \<and> config self k = None)"
  using assms unfolding generate_rclone_cfg_def Let_def required_keys_def
  by (auto split: sum.splits dest!: config_get_Inl)

lemma generate_rclone_cfg_returns:
  assumes "generate_rclone_cfg self cfg_name w = (Inr name, w')"
  shows "name = cfg_name \<and> (\<exists>content. w' = tmp_create cfg_name content w)
    \<and> (\<forall>k \<in> set [''source_token'', ''source_secret'', ''source_s3_endpoint'',
                    ''dest_token'', ''dest_secret'', ''dest_s3_endpoint'']. config self k \<noteq> None)"
  using assms unfolding generate_rclone_cfg_def Let_def
  by (auto split: sum.splits dest!: config_get_Inr)

lemma tmp_close_removes: "fs (snd (tmp_close name w)) name = None"
  by (simp add: tmp_close_def)

lemma tmp_close_spawned: "spawned (snd (tmp_close name w)) = spawned w"
  by (simp add: tmp_close_def)

text \<open>The four ways through \<open>run_automation\<close>.\<close>

lemma run_automation_cases [case_names key_error cfg_key_error executor_raises executor_returns]:
  obtains
    (key_error) k where "k \<in> set required_keys" "config self k = None"
      "run_automation self log_name cfg_name w = (Inl (KeyError k), w)"
  | (cfg_key_error) k where "k \<in> set required_keys" "config self k = None"
      "run_automation self log_name cfg_name w = (Inl (KeyError k), tmp_create log_name [] w)"
  | (executor_raises) cmd content e w4 where "\<forall>k \<in> set required_keys. config self k \<noteq> None"
      "shell_executor self cmd
         ((tmp_create cfg_name content (tmp_create log_name [] w))
            \<lparr>spawned := spawned w @ [cmd]\<rparr>) = (Inl e, w4)"
      "run_automation self log_name cfg_name w = (Inl e, w4)"
  | (executor_returns) cmd content status w4 where "\<forall>k \<in> set required_keys. config self k \<noteq> None"
      "shell_executor self cmd
         ((tmp_create cfg_name content (tmp_create log_name [] w))
            \<lparr>spawned := spawned w @ [cmd]\<rparr>) = (Inr status, w4)"
      "run_automation self log_name cfg_name w =
         (case tmp_close cfg_name w4 of
            (Inl e, w5) \<Rightarrow> (Inl e, w5)
          | (Inr u, w5) \<Rightarrow> (parse_log (read_log log_name w5), w5))"
proof (cases "config_get self ''source_s3_bucket''")
  case (Inl e)
  with config_get_Inl [OF Inl] key_error [of "''source_s3_bucket''"] show ?thesis
    by (simp add: run_automation_def required_keys_def)
next
  case b1: (Inr v1)
  show ?thesis
  proof (cases "config_get self ''source_s3_region''")
    case (Inl e)
    with b1 config_get_Inl [OF Inl] key_error [of "''source_s3_region''"] show ?thesis
      by (simp add: run_automation_def required_keys_def)
  next
    case b2: (Inr v2)
    show ?thesis
    proof (cases "config_get self ''dest_s3_bucket''")
      case (Inl e)
      with b1 b2 config_get_Inl [OF Inl] key_error [of "''dest_s3_bucket''"] show ?thesis
        by (simp add: run_automation_def required_keys_def)
    next
      case b3: (Inr v3)
      show ?thesis
      proof (cases "config_get self ''dest_s3_region''")
        case (Inl e)
        with b1 b2 b3 config_get_Inl [OF Inl] key_error [of "''dest_s3_region''"] show ?thesis
          by (simp add: run_automation_def required_keys_def)
      next
        case b4: (Inr v4)
        let ?w1 = "tmp_create log_name [] w"
        obtain res w2 where g: "generate_rclone_cfg self cfg_name ?w1 = (res, w2)"
          by (cases "generate_rclone_cfg self cfg_name ?w1")
        show ?thesis
        proof (cases res)
          case (Inl e)
          from generate_rclone_cfg_raises [OF g [unfolded Inl]] obtain k
            where k: "w2 = ?w1" "k \<in> set required_keys" "e = KeyError k" "config self k = None"
            by blast
          have "run_automation self log_name cfg_name w = (Inl (KeyError k), ?w1)"
            using b1 b2 b3 b4 g Inl k by (simp add: run_automation_def)
          with k cfg_key_error show ?thesis by blast
        next
          case (Inr name)
          from generate_rclone_cfg_returns [OF g [unfolded Inr]] obtain content
            where n: "name = cfg_name" "w2 = tmp_create cfg_name content ?w1"
              and six: "\<forall>k \<in> set [''source_token'', ''source_secret'', ''source_s3_endpoint'',
                    ''dest_token'', ''dest_secret'', ''dest_s3_endpoint'']. config self k \<noteq> None"
            by blast
          have all: "\<forall>k \<in> set required_keys. config self k \<noteq> None"
            using six config_get_Inr [OF b1] config_get_Inr [OF b2] config_get_Inr [OF b3]
              config_get_Inr [OF b4]
            by (simp add: required_keys_def)
          define cmd where "cmd =
                      [''rclone'',
                       ''copy'',
                       ''s3source:'' @ v1,
                       ''s3dest:'' @ v3,
                       ''--multi-thread-streams='' @ str_int (multi_thread_streams self),
                       ''--multi-thread-cutoff='' @ str_int (multi_thread_cutoff self) @ ''M'',
                       ''--s3-max-upload-parts='' @ str_int (s3_max_upload_parts self),
                       ''--s3-upload-concurrency='' @ str_int (s3_upload_concurrency self),
                       ''--buffer-size='' @ str_int (buffer_size self) @ ''M'',
                       ''--transfers='' @ str_int (ntransfers self),
                       ''--progress'',
                       ''--config='' @ cfg_name,
                       ''--log-file='' @ log_name,
                       ''--log-level=DEBUG'',
                       ''-I'']"
          let ?w3 = "(tmp_create cfg_name content ?w1)\<lparr>spawned := spawned w @ [cmd]\<rparr>"
          have sp: "spawned (tmp_create cfg_name content ?w1) = spawned w"
            by (simp add: tmp_create_def)
          obtain r w4 where x: "shell_executor self cmd ?w3 = (r, w4)"
            by (cases "shell_executor self cmd ?w3")
          show ?thesis
          proof (cases r)
            case (Inl e)
            have "run_automation self log_name cfg_name w = (Inl e, w4)"
              using b1 b2 b3 b4 g Inr n x Inl sp
              by (simp add: run_automation_def Let_def cmd_def)
            with all x Inl executor_raises show ?thesis by blast
          next
            case st: (Inr status)
            have "run_automation self log_name cfg_name w =
               (case tmp_close cfg_name w4 of
                  (Inl e, w5) \<Rightarrow> (Inl e, w5)
                | (Inr u, w5) \<Rightarrow> (parse_log (read_log log_name w5), w5))"
              using b1 b2 b3 b4 g Inr n x st sp
              by (simp add: run_automation_def Let_def cmd_def)
            with all x st executor_returns show ?thesis by blast
          qed
        qed
      qed
    qed
  qed
qed

section \<open>Properties\<close>

text \<open>
  C1, as amended. The log made of the two lines of the example scenario parses to exactly one
  record, with start 2024/01/01 10:00:00 and end 2024/01/01 10:05:00; its file identity is
  \<open>msg\<close>: the field at index 3 of the line split at every colon, the first three fields
  being cut by the two colons of the timestamp and the colon after the level.
\<close>

theorem spec_example_one_record_msg:
  "\<exists>r. parse_log spec_example_log = Inr [r] \<and> fname r = ''msg''
       \<and> start_time r = Some (dt 2024 1 1 10 0 0) \<and> end_time r = Some (dt 2024 1 1 10 5 0)"
  by (simp add: spec_example_log_result)

text \<open>
  C1 as stated fails: the identity of that one record is not \<open>foo\<close>.
\<close>

theorem spec_example_identity_not_foo:
  "\<not> (\<exists>r. parse_log spec_example_log = Inr [r] \<and> fname r = ''foo''
          \<and> start_time r = Some (dt 2024 1 1 10 0 0) \<and> end_time r = Some (dt 2024 1 1 10 5 0))"
  by (simp add: spec_example_log_result)

text \<open>
  C2, as amended. A line that matches a marker and whose timestamp token (the text before
  \<open>DEBUG\<close> for a start marker, before \<open>INFO\<close> for the completion marker) does not parse
  is not skipped: the parse of every log that holds such a line raises IndexError or
  ValueError, and returns no record.
\<close>

theorem unparsable_timestamp_raises:
  assumes "l \<in> set (file_lines text)"
    and "(is_start l \<and> isl (line_start_time l)) \<or> (is_copied l \<and> isl (line_end_time l))"
  shows "parse_log text = Inl IndexError \<or> parse_log text = Inl ValueError"
proof -
  from assms(2) have "line_raises l" by (auto simp: line_raises_def)
  with assms(1) show ?thesis by (rule parse_log_raises)
qed

theorem unparsable_timestamp_raises_witness:
  "line_dashed_bar \<in> set (file_lines (line_start_foo @ line_dashed_bar @ line_copied_foo))
   \<and> ((is_start line_dashed_bar \<and> isl (line_start_time line_dashed_bar))
        \<or> (is_copied line_dashed_bar \<and> isl (line_end_time line_dashed_bar)))
   \<and> (parse_log (line_start_foo @ line_dashed_bar @ line_copied_foo) = Inl IndexError
        \<or> parse_log (line_start_foo @ line_dashed_bar @ line_copied_foo) = Inl ValueError)"
proof -
  have 1: "line_dashed_bar \<in> set (file_lines (line_start_foo @ line_dashed_bar @ line_copied_foo))"
    by code_simp
  have 2: "(is_start line_dashed_bar \<and> isl (line_start_time line_dashed_bar))
        \<or> (is_copied line_dashed_bar \<and> isl (line_end_time line_dashed_bar))"
    by code_simp
  from 1 2 unparsable_timestamp_raises [OF 1 2] show ?thesis by blast
qed

text \<open>
  C2 as stated fails: a start line dated \<open>2024-01-01\<close> between two well-formed lines makes
  the parse of the whole log raise ValueError.
\<close>

theorem unparsable_timestamp_not_skipped:
  "strptime (str_strip ''2024-01-01 10:02:00 '') = Inl ValueError
   \<and> parse_log (line_start_foo @ line_dashed_bar @ line_copied_foo) = Inl ValueError"
  by code_simp

text \<open>
  C3, as amended. The name of the temporary configuration file being fresh and not that of
  the log file, every \<open>run_automation\<close> goes one of two ways. Either a required key is
  missing: no configuration file is on disk afterwards. Or the shell executor is called
  once, with the configuration file on disk: when it returns, whatever the status, the file
  is no longer on disk afterwards, also when \<open>close()\<close> or \<open>parse_log\<close> raises; when it
  raises, \<open>run_automation\<close> ends with that exception in the very state the executor left,
  having removed nothing.
\<close>

theorem config_removed_unless_executor_raises:
  assumes "fs w cfg_name = None" and "log_name \<noteq> cfg_name"
  shows "(\<exists>k. k \<in> set required_keys \<and> config self k = None
            \<and> fs (snd (run_automation self log_name cfg_name w)) cfg_name = None)
       \<or> (\<exists>cmd w3. fs w3 cfg_name \<noteq> None \<and> spawned w3 = spawned w @ [cmd]
            \<and> (case shell_executor self cmd w3 of
                  (Inl e, w4) \<Rightarrow> run_automation self log_name cfg_name w = (Inl e, w4)
                | (Inr status, w4) \<Rightarrow>
                    fs (snd (run_automation self log_name cfg_name w)) cfg_name = None))"
proof (cases self log_name cfg_name w rule: run_automation_cases)
  case (key_error k)
  with assms(1) show ?thesis by auto
next
  case (cfg_key_error k)
  with assms(1,2) show ?thesis by (auto simp: tmp_create_def)
next
  case (executor_raises cmd content e w4)
  let ?w3 = "(tmp_create cfg_name content (tmp_create log_name [] w))\<lparr>spawned := spawned w @ [cmd]\<rparr>"
  have "fs ?w3 cfg_name \<noteq> None \<and> spawned ?w3 = spawned w @ [cmd]
      \<and> (case shell_executor self cmd ?w3 of
            (Inl e, w4) \<Rightarrow> run_automation self log_name cfg_name w = (Inl e, w4)
          | (Inr status, w4) \<Rightarrow>
              fs (snd (run_automation self log_name cfg_name w)) cfg_name = None)"
    using executor_raises(2,3) by (simp add: tmp_create_def)
  then show ?thesis by (intro disjI2 exI [of _ cmd] exI [of _ ?w3])
next
  case (executor_returns cmd content status w4)
  let ?w3 = "(tmp_create cfg_name content (tmp_create log_name [] w))\<lparr>spawned := spawned w @ [cmd]\<rparr>"
  have "snd (run_automation self log_name cfg_name w) = snd (tmp_close cfg_name w4)"
    unfolding executor_returns(3) by (auto split: prod.splits sum.splits)
  then have gone: "fs (snd (run_automation self log_name cfg_name w)) cfg_name = None"
    by (simp add: tmp_close_removes)
  have "fs ?w3 cfg_name \<noteq> None \<and> spawned ?w3 = spawned w @ [cmd]
      \<and> (case shell_executor self cmd ?w3 of
            (Inl e, w4) \<Rightarrow> run_automation self log_name cfg_name w = (Inl e, w4)
          | (Inr status, w4) \<Rightarrow>
              fs (snd (run_automation self log_name cfg_name w)) cfg_name = None)"
    using executor_returns(2) gone by (simp add: tmp_create_def)
  then show ?thesis by (intro disjI2 exI [of _ cmd] exI [of _ ?w3])
qed

text \<open>
  In the run of the witness every key is there and the executor writes a log and returns the
  status 1.
\<close>

theorem config_removed_unless_executor_raises_witness:
  "fs empty_world tmp_cfg = None \<and> tmp_log \<noteq> tmp_cfg
   \<and> list_all (\<lambda>k. config (test_automation full_config
          (executor_writes tmp_log (line_start_foo @ line_copied_foo) 1)) k \<noteq> None) required_keys
   \<and> fs (snd (run_automation
          (test_automation full_config (executor_writes tmp_log (line_start_foo @ line_copied_foo) 1))
          tmp_log tmp_cfg empty_world)) tmp_cfg = None
   \<and> fst (run_automation
          (test_automation full_config (executor_writes tmp_log (line_start_foo @ line_copied_foo) 1))
          tmp_log tmp_cfg empty_world)
       = Inr [\<lparr>fname = ''foo'', transferer = ''rclone'',
                start_time = Some (dt 2024 1 1 10 0 0), end_time = Some (dt 2024 1 1 10 5 0)\<rparr>]"
proof -
  let ?A = "test_automation full_config (executor_writes tmp_log (line_start_foo @ line_copied_foo) 1)"
  have 1: "fs empty_world tmp_cfg = None" by (simp add: empty_world_def)
  have 2: "tmp_log \<noteq> tmp_cfg" by (simp add: tmp_log_def tmp_cfg_def)
  have 3: "list_all (\<lambda>k. config ?A k \<noteq> None) required_keys"
    by (simp add: test_automation_def full_config_def required_keys_def)
  have 4: "fst (run_automation ?A tmp_log tmp_cfg empty_world)
       = Inr [\<lparr>fname = ''foo'', transferer = ''rclone'',
                start_time = Some (dt 2024 1 1 10 0 0), end_time = Some (dt 2024 1 1 10 5 0)\<rparr>]"
    by code_simp
  have 5: "fs (snd (run_automation ?A tmp_log tmp_cfg empty_world)) tmp_cfg = None"
    using config_removed_unless_executor_raises [OF 1 2, of ?A]
    by (auto simp: test_automation_def executor_writes_def)
  from 1 2 3 4 5 show ?thesis by blast
qed

text \<open>
  C3 as stated fails: when the shell executor raises, the exception leaves
  \<open>run_automation\<close> before \<open>rclone_config_file.close()\<close>, and no statement has removed the
  file.
\<close>

theorem config_left_when_executor_raises:
  "fst (run_automation (test_automation full_config executor_raises) tmp_log tmp_cfg empty_world)
     = Inl ExecutorError
   \<and> fs empty_world tmp_cfg = None
   \<and> fs (snd (run_automation (test_automation full_config executor_raises)
               tmp_log tmp_cfg empty_world)) tmp_cfg \<noteq> None"
  by (simp add: run_automation_def generate_rclone_cfg_def config_get_def test_automation_def
        full_config_def Let_def executor_raises_def tmp_create_def empty_world_def
        tmp_log_def tmp_cfg_def)

text \<open>
  C4, as amended. For every log no line of which makes the loop body raise: when \<open>l1\<close> is
  the last start line and \<open>l2\<close> the last completion line of the identity \<open>X\<close>, wherever
  the two stand with respect to each other, \<open>parse_log\<close> returns exactly one record for
  \<open>X\<close>, its start time read from \<open>l1\<close> and its end time from \<open>l2\<close>.
\<close>

theorem merge_by_identity:
  assumes ok: "\<forall>l \<in> set (file_lines text). \<not> line_raises l"
    and s: "file_lines text = p1 @ l1 # q1" "is_start l1" "line_fname l1 = Inr X"
           "\<forall>l \<in> set q1. \<not> (is_start l \<and> line_fname l = Inr X)"
    and c: "file_lines text = p2 @ l2 # q2" "is_copied l2" "line_fname l2 = Inr X"
           "\<forall>l \<in> set q2. \<not> (is_copied l \<and> line_fname l = Inr X)"
  shows "\<exists>recs r ts te. parse_log text = Inr recs \<and> filter (\<lambda>r. fname r = X) recs = [r]
           \<and> line_start_time l1 = Inr ts \<and> line_end_time l2 = Inr te
           \<and> start_time r = Some ts \<and> end_time r = Some te"
proof -
  from ok obtain tk where tk: "parse_lines [] (file_lines text) = Inr tk"
    and res: "parse_log text = Inr (map snd tk)" and inv: "tk_inv tk"
    by (rule parse_log_total)
  from start_of_last [OF tk [unfolded s(1)] s(2,3,4)] obtain d ts
    where d: "line_start_time l1 = Inr ts" "map_of tk X = Some d" "start_time d = Some ts"
    by blast
  from end_of_last [OF tk [unfolded c(1)] c(2,3,4)] obtain d' te
    where d': "line_end_time l2 = Inr te" "map_of tk X = Some d'" "end_time d' = Some te"
    by blast
  from d(2) d'(2) have same: "d' = d" by simp
  have "filter (\<lambda>r. fname r = X) (map snd tk) = [d]"
    using records_of_identity_inv [OF inv, of X] d(2) by simp
  with res d d' same show ?thesis by blast
qed

text \<open>
  The completion line comes first in the log of the witness.
\<close>

theorem merge_by_identity_witness:
  "list_all (\<lambda>l. \<not> line_raises l) (file_lines (line_copied_foo @ line_start_foo @ line_start_bar))
   \<and> file_lines (line_copied_foo @ line_start_foo @ line_start_bar)
       = [line_copied_foo] @ line_start_foo # [line_start_bar]
   \<and> is_start line_start_foo \<and> line_fname line_start_foo = Inr ''foo''
   \<and> list_all (\<lambda>l. \<not> (is_start l \<and> line_fname l = Inr ''foo'')) [line_start_bar]
   \<and> file_lines (line_copied_foo @ line_start_foo @ line_start_bar)
       = [] @ line_copied_foo # [line_start_foo, line_start_bar]
   \<and> is_copied line_copied_foo \<and> line_fname line_copied_foo = Inr ''foo''
   \<and> list_all (\<lambda>l. \<not> (is_copied l \<and> line_fname l = Inr ''foo'')) [line_start_foo, line_start_bar]
   \<and> (\<exists>recs r ts te.
         parse_log (line_copied_foo @ line_start_foo @ line_start_bar) = Inr recs
         \<and> filter (\<lambda>r. fname r = ''foo'') recs = [r]
         \<and> line_start_time line_start_foo = Inr ts \<and> line_end_time line_copied_foo = Inr te
         \<and> start_time r = Some ts \<and> end_time r = Some te)"
proof -
  have ok: "list_all (\<lambda>l. \<not> line_raises l) (file_lines (line_copied_foo @ line_start_foo @ line_start_bar))"
    by code_simp
  have s1: "file_lines (line_copied_foo @ line_start_foo @ line_start_bar)
       = [line_copied_foo] @ line_start_foo # [line_start_bar]"
    by code_simp
  have s2: "is_start line_start_foo" by code_simp
  have s3: "line_fname line_start_foo = Inr ''foo''" by code_simp
  have s4: "list_all (\<lambda>l. \<not> (is_start l \<and> line_fname l = Inr ''foo'')) [line_start_bar]"
    by code_simp
  have c1: "file_lines (line_copied_foo @ line_start_foo @ line_start_bar)
       = [] @ line_copied_foo # [line_start_foo, line_start_bar]"
    by code_simp
  have c2: "is_copied line_copied_foo" by code_simp
  have c3: "line_fname line_copied_foo = Inr ''foo''" by code_simp
  have c4: "list_all (\<lambda>l. \<not> (is_copied l \<and> line_fname l = Inr ''foo'')) [line_start_foo, line_start_bar]"
    by code_simp
  note inst = merge_by_identity [OF ok [unfolded list_all_iff] s1 s2 s3 s4 [unfolded list_all_iff]
      c1 c2 c3 c4 [unfolded list_all_iff]]
  from ok s1 s2 s3 s4 c1 c2 c3 c4 inst show ?thesis by blast
qed

text \<open>
  C4 as stated fails: between the start line and the completion line of \<open>foo\<close>, the
  start line of a file called \<open>Copied.txt\<close> makes the parse raise ValueError, and no
  record is returned for \<open>foo\<close>.
\<close>

theorem merge_fails_on_raising_line:
  "is_start line_start_foo \<and> line_fname line_start_foo = Inr ''foo''
   \<and> is_copied line_copied_foo \<and> line_fname line_copied_foo = Inr ''foo''
   \<and> file_lines (line_start_foo @ line_start_copied_txt @ line_copied_foo)
       = [line_start_foo, line_start_copied_txt, line_copied_foo]
   \<and> parse_log (line_start_foo @ line_start_copied_txt @ line_copied_foo) = Inl ValueError"
  by code_simp

text \<open>
  C5. When the configuration lacks one of the ten keys \<open>run_automation\<close> reads, the run
  ends with the KeyError of a missing required key, and the shell executor has not been
  called: the list of spawned commands is as it was.
\<close>

theorem missing_key_fails_before_spawn:
  assumes "k \<in> set required_keys" and "config self k = None"
  shows "\<exists>k'. k' \<in> set required_keys \<and> config self k' = None
           \<and> fst (run_automation self log_name cfg_name w) = Inl (KeyError k')
           \<and> spawned (snd (run_automation self log_name cfg_name w)) = spawned w"
proof (cases self log_name cfg_name w rule: run_automation_cases)
  case (key_error k')
  then show ?thesis by auto
next
  case (cfg_key_error k')
  then show ?thesis by (auto simp: tmp_create_def)
next
  case (executor_raises cmd content e w4)
  with assms show ?thesis by blast
next
  case (executor_returns cmd content status w4)
  with assms show ?thesis by blast
qed

theorem missing_key_fails_before_spawn_witness:
  "''dest_secret'' \<in> set required_keys
   \<and> config (test_automation (full_config(''dest_secret'' := None)) (executor_writes tmp_log [] 0))
       ''dest_secret'' = None
   \<and> fst (run_automation
            (test_automation (full_config(''dest_secret'' := None)) (executor_writes tmp_log [] 0))
            tmp_log tmp_cfg empty_world) = Inl (KeyError ''dest_secret'')
   \<and> (\<exists>k'. k' \<in> set required_keys
         \<and> config (test_automation (full_config(''dest_secret'' := None)) (executor_writes tmp_log [] 0))
             k' = None
         \<and> fst (run_automation
                  (test_automation (full_config(''dest_secret'' := None)) (executor_writes tmp_log [] 0))
                  tmp_log tmp_cfg empty_world) = Inl (KeyError k')
         \<and> spawned (snd (run_automation
                  (test_automation (full_config(''dest_secret'' := None)) (executor_writes tmp_log [] 0))
                  tmp_log tmp_cfg empty_world)) = spawned empty_world)"
proof -
  let ?A = "test_automation (full_config(''dest_secret'' := None)) (executor_writes tmp_log [] 0)"
  have 1: "''dest_secret'' \<in> set required_keys" by (simp add: required_keys_def)
  have 2: "config ?A ''dest_secret'' = None" by (simp add: test_automation_def)
  have 3: "fst (run_automation ?A tmp_log tmp_cfg empty_world) = Inl (KeyError ''dest_secret'')"
    by (simp add: run_automation_def generate_rclone_cfg_def config_get_def test_automation_def
          full_config_def Let_def)
  from 1 2 3 missing_key_fails_before_spawn [OF 1 2, of tmp_log tmp_cfg empty_world]
  show ?thesis by blast
qed

text \<open>
  C6, as amended. For every log no line of which makes the loop body raise, with a start
  line for the identity \<open>X\<close> and no completion line for it, \<open>parse_log\<close> returns exactly
  one record for \<open>X\<close>, with its start time set and its end time unset.
\<close>

theorem start_only_record:
  assumes ok: "\<forall>l \<in> set (file_lines text). \<not> line_raises l"
    and s: "l \<in> set (file_lines text)" "is_start l" "line_fname l = Inr X"
    and c: "\<forall>l \<in> set (file_lines text). \<not> (is_copied l \<and> line_fname l = Inr X)"
  shows "\<exists>recs r t. parse_log text = Inr recs \<and> filter (\<lambda>r. fname r = X) recs = [r]
           \<and> start_time r = Some t \<and> end_time r = None"
proof -
  from ok obtain tk where tk: "parse_lines [] (file_lines text) = Inr tk"
    and res: "parse_log text = Inr (map snd tk)" and inv: "tk_inv tk"
    by (rule parse_log_total)
  from s have "\<exists>l \<in> set (file_lines text). is_start l \<and> line_fname l = Inr X" by blast
  then obtain pre l' post where split: "file_lines text = pre @ l' # post"
    and l': "is_start l'" "line_fname l' = Inr X"
    and post: "\<forall>z \<in> set post. \<not> (is_start z \<and> line_fname z = Inr X)"
    by (auto dest!: split_list_last_prop)
  from start_of_last [OF tk [unfolded split] l' post] obtain d t
    where d: "map_of tk X = Some d" "start_time d = Some t"
    by blast
  have "\<forall>d. map_of ([] :: timekeeper) X = Some d \<longrightarrow> end_time d = None" by simp
  from end_unset [OF tk c this] d(1) have "end_time d = None" by simp
  moreover have "filter (\<lambda>r. fname r = X) (map snd tk) = [d]"
    using records_of_identity_inv [OF inv, of X] d(1) by simp
  ultimately show ?thesis using res d(2) by blast
qed

theorem start_only_record_witness:
  "list_all (\<lambda>l. \<not> line_raises l) (file_lines (line_start_bar @ line_start_foo))
   \<and> line_start_foo \<in> set (file_lines (line_start_bar @ line_start_foo))
   \<and> is_start line_start_foo \<and> line_fname line_start_foo = Inr ''foo''
   \<and> list_all (\<lambda>l. \<not> (is_copied l \<and> line_fname l = Inr ''foo''))
        (file_lines (line_start_bar @ line_start_foo))
   \<and> (\<exists>recs r t. parse_log (line_start_bar @ line_start_foo) = Inr recs
         \<and> filter (\<lambda>r. fname r = ''foo'') recs = [r]
         \<and> start_time r = Some t \<and> end_time r = None)"
proof -
  have ok: "list_all (\<lambda>l. \<not> line_raises l) (file_lines (line_start_bar @ line_start_foo))"
    by code_simp
  have s1: "line_start_foo \<in> set (file_lines (line_start_bar @ line_start_foo))" by code_simp
  have s2: "is_start line_start_foo" by code_simp
  have s3: "line_fname line_start_foo = Inr ''foo''" by code_simp
  have c: "list_all (\<lambda>l. \<not> (is_copied l \<and> line_fname l = Inr ''foo''))
        (file_lines (line_start_bar @ line_start_foo))"
    by code_simp
  note inst = start_only_record [OF ok [unfolded list_all_iff] s1 s2 s3 c [unfolded list_all_iff]]
  from ok s1 s2 s3 c inst show ?thesis by blast
qed

text \<open>
  C6 as stated fails: the log holds only a start line for \<open>foo\<close>, and no completion
  line at all; a second start line, dated with dashes, makes the parse raise ValueError, and
  no record is returned for \<open>foo\<close>.
\<close>

theorem start_only_lost_on_raising_line:
  "is_start line_start_foo \<and> line_fname line_start_foo = Inr ''foo''
   \<and> file_lines (line_start_foo @ line_dashed_bar) = [line_start_foo, line_dashed_bar]
   \<and> \<not> is_copied line_start_foo \<and> \<not> is_copied line_dashed_bar
   \<and> parse_log (line_start_foo @ line_dashed_bar) = Inl ValueError"
  by code_simp

text \<open>
  C7, as amended. For every log no line of which makes the loop body raise: when \<open>l\<close> is
  the last start line for the identity \<open>X\<close>, however many start lines for \<open>X\<close> come
  before it, \<open>parse_log\<close> returns exactly one record for \<open>X\<close>, and its start time is
  the timestamp of \<open>l\<close>.
\<close>

theorem last_start_line_wins:
  assumes ok: "\<forall>l \<in> set (file_lines text). \<not> line_raises l"
    and split: "file_lines text = pre @ l # post"
    and l: "is_start l" "line_fname l = Inr X"
    and post: "\<forall>l' \<in> set post. \<not> (is_start l' \<and> line_fname l' = Inr X)"
  shows "\<exists>recs r t. parse_log text = Inr recs \<and> filter (\<lambda>r. fname r = X) recs = [r]
           \<and> line_start_time l = Inr t \<and> start_time r = Some t"
proof -
  from ok obtain tk where tk: "parse_lines [] (file_lines text) = Inr tk"
    and res: "parse_log text = Inr (map snd tk)" and inv: "tk_inv tk"
    by (rule parse_log_total)
  from start_of_last [OF tk [unfolded split] l post] obtain d t
    where d: "line_start_time l = Inr t" "map_of tk X = Some d" "start_time d = Some t"
    by blast
  have "filter (\<lambda>r. fname r = X) (map snd tk) = [d]"
    using records_of_identity_inv [OF inv, of X] d(2) by simp
  with res d show ?thesis by blast
qed

text \<open>
  The log of the witness has two start lines for \<open>foo\<close>, at 10:00:00 and at 10:01:00.
\<close>

theorem last_start_line_wins_witness:
  "list_all (\<lambda>l. \<not> line_raises l) (file_lines (line_start_foo @ line_restart_foo @ line_copied_foo))
   \<and> file_lines (line_start_foo @ line_restart_foo @ line_copied_foo)
       = [line_start_foo] @ line_restart_foo # [line_copied_foo]
   \<and> is_start line_start_foo \<and> line_fname line_start_foo = Inr ''foo''
   \<and> line_start_time line_start_foo = Inr (dt 2024 1 1 10 0 0)
   \<and> is_start line_restart_foo \<and> line_fname line_restart_foo = Inr ''foo''
   \<and> line_start_time line_restart_foo = Inr (dt 2024 1 1 10 1 0)
   \<and> list_all (\<lambda>l'. \<not> (is_start l' \<and> line_fname l' = Inr ''foo'')) [line_copied_foo]
   \<and> (\<exists>recs r t. parse_log (line_start_foo @ line_restart_foo @ line_copied_foo) = Inr recs
         \<and> filter (\<lambda>r. fname r = ''foo'') recs = [r]
         \<and> line_start_time line_restart_foo = Inr t \<and> start_time r = Some t)"
proof -
  have ok: "list_all (\<lambda>l. \<not> line_raises l)
      (file_lines (line_start_foo @ line_restart_foo @ line_copied_foo))"
    by code_simp
  have split: "file_lines (line_start_foo @ line_restart_foo @ line_copied_foo)
       = [line_start_foo] @ line_restart_foo # [line_copied_foo]"
    by code_simp
  have first: "is_start line_start_foo \<and> line_fname line_start_foo = Inr ''foo''
     \<and> line_start_time line_start_foo = Inr (dt 2024 1 1 10 0 0)"
    by code_simp
  have l1: "is_start line_restart_foo" by code_simp
  have l2: "line_fname line_restart_foo = Inr ''foo''" by code_simp
  have l3: "line_start_time line_restart_foo = Inr (dt 2024 1 1 10 1 0)" by code_simp
  have post: "list_all (\<lambda>l'. \<not> (is_start l' \<and> line_fname l' = Inr ''foo'')) [line_copied_foo]"
    by code_simp
  note inst = last_start_line_wins [OF ok [unfolded list_all_iff] split l1 l2
      post [unfolded list_all_iff]]
  from ok split first l1 l2 l3 post inst show ?thesis by blast
qed

text \<open>
  C7 as stated fails: after two start lines for \<open>foo\<close>, a start line dated with dashes
  makes the parse raise ValueError, and no record is returned for \<open>foo\<close>.
\<close>

theorem last_start_lost_on_raising_line:
  "file_lines (line_start_foo @ line_restart_foo @ line_dashed_bar)
     = [line_start_foo, line_restart_foo, line_dashed_bar]
   \<and> is_start line_start_foo \<and> line_fname line_start_foo = Inr ''foo''
   \<and> is_start line_restart_foo \<and> line_fname line_restart_foo = Inr ''foo''
   \<and> parse_log (line_start_foo @ line_restart_foo @ line_dashed_bar) = Inl ValueError"
  by code_simp

text \<open>
  C8. A log in which no line matches a start marker or the completion marker, the empty log
  among them, parses to the empty collection; nothing is raised.
\<close>

theorem no_marker_empty_result:
  assumes "\<forall>l \<in> set (file_lines text). \<not> is_start l \<and> \<not> is_copied l"
  shows "parse_log text = Inr []"
proof -
  have "\<forall>l \<in> set ls. \<not> is_start l \<and> \<not> is_copied l \<Longrightarrow> parse_lines tk ls = Inr tk" for ls tk
    by (induction ls) (simp_all add: parse_line_skip)
  from this [OF assms] show ?thesis by (simp add: parse_log_def)
qed

theorem no_marker_empty_result_witness:
  "list_all (\<lambda>l. \<not> is_start l \<and> \<not> is_copied l) (file_lines (line_no_marker @ line_no_marker))
   \<and> parse_log (line_no_marker @ line_no_marker) = Inr []
   \<and> file_lines [] = []
   \<and> parse_log [] = Inr []"
proof -
  have h: "list_all (\<lambda>l. \<not> is_start l \<and> \<not> is_copied l) (file_lines (line_no_marker @ line_no_marker))"
    by code_simp
  have e: "file_lines [] = []"
    by (simp add: file_lines_def)
  have 1: "parse_log (line_no_marker @ line_no_marker) = Inr []"
    using h by (intro no_marker_empty_result) (simp add: list_all_iff)
  have 2: "parse_log [] = Inr []"
    using e by (intro no_marker_empty_result) simp
  from h e 1 2 show ?thesis by blast
qed

text \<open>
  C9. The records \<open>parse_log\<close> returns have pairwise distinct file identities; each has
  \<open>rclone\<close> as transferer, at least one of its two times set, and as \<open>fname\<close> the
  identity read from the line that created it: the first marker line of the log with that
  identity.
\<close>

theorem returned_records_invariant:
  assumes "parse_log text = Inr recs"
  shows "distinct (map fname recs)
    \<and> (\<forall>r \<in> set recs. transferer r = ''rclone''
          \<and> (start_time r \<noteq> None \<or> end_time r \<noteq> None)
          \<and> (\<exists>pre l post. file_lines text = pre @ l # post
                \<and> (is_start l \<or> is_copied l) \<and> line_fname l = Inr (fname r)
                \<and> (\<forall>l' \<in> set pre. \<not> ((is_start l' \<or> is_copied l') \<and> line_fname l' = Inr (fname r)))))"
proof -
  from assms obtain tk where tk: "parse_lines [] (file_lines text) = Inr tk"
    and recs: "recs = map snd tk" and inv: "tk_inv tk"
    by (rule parse_log_returns)
  have keys: "map fname (map snd tk) = map fst tk"
    using inv by (auto simp: tk_inv_def)
  have "distinct (map fname recs)" unfolding recs keys using inv by (simp add: tk_inv_def)
  moreover have "transferer r = ''rclone'' \<and> (start_time r \<noteq> None \<or> end_time r \<noteq> None)
      \<and> (\<exists>pre l post. file_lines text = pre @ l # post
            \<and> (is_start l \<or> is_copied l) \<and> line_fname l = Inr (fname r)
            \<and> (\<forall>l' \<in> set pre. \<not> ((is_start l' \<or> is_copied l') \<and> line_fname l' = Inr (fname r))))"
    if "r \<in> set recs" for r
  proof -
    from that recs obtain k where k: "(k, r) \<in> set tk" by auto
    with inv have r: "fname r = k" "transferer r = ''rclone''"
      "start_time r \<noteq> None \<or> end_time r \<noteq> None"
      by (auto simp: tk_inv_def)
    from k have "k \<in> fst ` set tk" by force
    from key_created [OF tk this] r show ?thesis by simp
  qed
  ultimately show ?thesis by blast
qed

theorem returned_records_invariant_witness:
  "parse_log (line_start_foo @ line_start_bar @ line_copied_foo)
     = Inr [\<lparr>fname = ''foo'', transferer = ''rclone'',
              start_time = Some (dt 2024 1 1 10 0 0), end_time = Some (dt 2024 1 1 10 5 0)\<rparr>,
            \<lparr>fname = ''bar'', transferer = ''rclone'',
              start_time = Some (dt 2024 1 1 10 2 0), end_time = None\<rparr>]
   \<and> distinct (map fname
        [\<lparr>fname = ''foo'', transferer = ''rclone'',
           start_time = Some (dt 2024 1 1 10 0 0), end_time = Some (dt 2024 1 1 10 5 0)\<rparr>,
         \<lparr>fname = ''bar'', transferer = ''rclone'',
           start_time = Some (dt 2024 1 1 10 2 0), end_time = None\<rparr>])
   \<and> list_all (\<lambda>r. transferer r = ''rclone''
          \<and> (start_time r \<noteq> None \<or> end_time r \<noteq> None)
          \<and> (\<exists>pre l post.
                file_lines (line_start_foo @ line_start_bar @ line_copied_foo) = pre @ l # post
                \<and> (is_start l \<or> is_copied l) \<and> line_fname l = Inr (fname r)
                \<and> (\<forall>l' \<in> set pre. \<not> ((is_start l' \<or> is_copied l') \<and> line_fname l' = Inr (fname r)))))
        [\<lparr>fname = ''foo'', transferer = ''rclone'',
           start_time = Some (dt 2024 1 1 10 0 0), end_time = Some (dt 2024 1 1 10 5 0)\<rparr>,
         \<lparr>fname = ''bar'', transferer = ''rclone'',
           start_time = Some (dt 2024 1 1 10 2 0), end_time = None\<rparr>]"
proof -
  have res: "parse_log (line_start_foo @ line_start_bar @ line_copied_foo)
     = Inr [\<lparr>fname = ''foo'', transferer = ''rclone'',
              start_time = Some (dt 2024 1 1 10 0 0), end_time = Some (dt 2024 1 1 10 5 0)\<rparr>,
            \<lparr>fname = ''bar'', transferer = ''rclone'',
              start_time = Some (dt 2024 1 1 10 2 0), end_time = None\<rparr>]"
    by code_simp
  note inst = returned_records_invariant [OF res]
  from res inst show ?thesis unfolding list_all_iff by blast
qed

text \<open>
  C10, as amended. The two tests are applied one after the other to every line, but a line
  that holds both a start marker and \<open>Copied\<close> never sets both times: the text before
  \<open>DEBUG\<close> and the text before \<open>INFO\<close> cannot both be timestamps, so one of the two
  blocks raises, and the parse of every log that holds such a line raises IndexError or
  ValueError.
\<close>

theorem both_markers_raise_error:
  assumes "l \<in> set (file_lines text)" and "is_start l" and "is_copied l"
  shows "(isl (line_start_time l) \<or> isl (line_end_time l))
         \<and> (parse_log text = Inl IndexError \<or> parse_log text = Inl ValueError)"
proof -
  from copied_line_one_token_fails [OF assms(3)] have t: "isl (line_start_time l) \<or> isl (line_end_time l)" .
  with assms(2,3) have "line_raises l" by (auto simp: line_raises_def)
  with assms(1) t show ?thesis by (auto dest: parse_log_raises)
qed

theorem both_markers_raise_error_witness:
  "line_start_copied_txt \<in> set (file_lines line_start_copied_txt)
   \<and> is_start line_start_copied_txt \<and> is_copied line_start_copied_txt
   \<and> (isl (line_start_time line_start_copied_txt) \<or> isl (line_end_time line_start_copied_txt))
   \<and> (parse_log line_start_copied_txt = Inl IndexError
        \<or> parse_log line_start_copied_txt = Inl ValueError)"
proof -
  have 1: "line_start_copied_txt \<in> set (file_lines line_start_copied_txt)" by code_simp
  have 2: "is_start line_start_copied_txt" by code_simp
  have 3: "is_copied line_start_copied_txt" by code_simp
  from 1 2 3 both_markers_raise_error [OF 1 2 3] show ?thesis by blast
qed

text \<open>
  C10 as stated fails: on the start line of a file called \<open>Copied.txt\<close> the first block
  sets the start time, the second block is entered and raises ValueError, and no record is
  returned.
\<close>

theorem both_markers_sets_no_record:
  "is_start line_start_copied_txt \<and> is_copied line_start_copied_txt
   \<and> start_block [] line_start_copied_txt =
       Inr [(''Copied.txt'', \<lparr>fname = ''Copied.txt'', transferer = ''rclone'',
              start_time = Some (dt 2024 1 1 10 0 1), end_time = None\<rparr>)]
   \<and> parse_log line_start_copied_txt = Inl ValueError"
  by code_simp

end
